theory Spec2Isabelle
  imports Main "HOL-Library.Word" "HOL-Library.Log_Nat"
begin

unbundle bit_operations_syntax

section \<open>Machine integers and outcomes\<close>

type_synonym u8 = "8 word"
type_synonym u32 = "32 word"
type_synonym u64 = "64 word"

text \<open>
  A call of the library either does not return (\<open>None\<close>), aborts (\<open>Some (Inl f)\<close>: a
  failed \<^verbatim>\<open>assert\<close>, a dereference of \<^verbatim>\<open>NULL\<close>, an access past the end of an
  array) or returns a value (\<open>Some (Inr x)\<close>).
\<close>

datatype fault = Assert_Failed | Null_Deref | Out_Of_Bounds | Div_By_Zero

type_synonym 'a outcome = "(fault + 'a) option"

definition bind_outcome :: "'a outcome \<Rightarrow> ('a \<Rightarrow> 'b outcome) \<Rightarrow> 'b outcome" where
  "bind_outcome m f =
     (case m of None \<Rightarrow> None | Some (Inl e) \<Rightarrow> Some (Inl e) | Some (Inr x) \<Rightarrow> f x)"

section \<open>core/memory.cpp\<close>

text \<open>
  Pointers are 64-bit addresses, \<^verbatim>\<open>NULL\<close> is \<open>0\<close>, and memory is a map from addresses to
  bytes. \<^verbatim>\<open>usize\<close>, \<^verbatim>\<open>uintptr_t\<close> and \<^verbatim>\<open>intptr_t\<close> are 64 bits wide, \<^verbatim>\<open>sizeof(usize)\<close> is
  8, and a \<^verbatim>\<open>usize\<close> is stored least significant byte first (an LP64 little-endian target).
  Pointer arithmetic is arithmetic on the addresses, modulo \<open>2 ^ 64\<close>.
\<close>

type_synonym memory = "u64 \<Rightarrow> u8"

definition alignptr :: "u64 \<Rightarrow> u64 \<Rightarrow> u64" where
  "alignptr ptr align =
     (let mask = align - 1;
          result = ptr
      in result + ((- result) AND mask))"

text \<open>
  \<^verbatim>\<open>nextpow2\<close>, in its GCC/Clang branch: \<^verbatim>\<open>1ull << (64 - __builtin_clzl(n - 1))\<close>, where
  \<^verbatim>\<open>64 - __builtin_clzl(x)\<close> is the number of binary digits of \<open>x\<close>. Its only caller,
  \<^verbatim>\<open>table_expand\<close>, passes a table capacity, a natural number here (see \<open>Table\<close> below),
  after asserting that it is not 0 (for 0 the shift would be by 64 bits, which C leaves undefined).
\<close>

definition nextpow2 :: "nat \<Rightarrow> nat" where
  "nextpow2 n = (if n = 1 then 1 else 2 ^ floorlog 2 (n - 1))"

text \<open>
  \<^verbatim>\<open>struct Arena\<close>: the fields \<open>capacity\<close> and \<open>allocated\<close>, the address \<open>data\<close> of the
  flexible array member, and the memory the arena's pointers point into.
\<close>

record Arena =
  capacity :: u64
  allocated :: u64
  data :: u64
  memory :: memory

text \<open>
  \<^verbatim>\<open>make_arena(size, buffer)\<close>: the arena header takes the first \<^verbatim>\<open>sizeof(Arena)\<close> = 16 bytes
  of the buffer. The second argument here is the memory at the time of the call.
\<close>

definition make_arena :: "u64 \<Rightarrow> u64 \<Rightarrow> memory \<Rightarrow> Arena option" where
  "make_arena sz buffer m =
     (if buffer = 0 \<or> sz < 16 then None
      else Some \<lparr>capacity = sz - 16, allocated = 0, data = buffer + 16, memory = m\<rparr>)"

text \<open>\<^verbatim>\<open>memcpy(p, &v, sizeof(usize))\<close> and \<^verbatim>\<open>memcpy(&v, p, sizeof(usize))\<close> for a \<^verbatim>\<open>usize v\<close>.\<close>

definition write_usize :: "memory \<Rightarrow> u64 \<Rightarrow> u64 \<Rightarrow> memory" where
  "write_usize m p v =
     (\<lambda>a. if a - p < 8 then ucast (drop_bit (8 * unat (a - p)) v) else m a)"

fun usize_of_bytes :: "u8 list \<Rightarrow> u64" where
  "usize_of_bytes [] = 0"
| "usize_of_bytes (b # bs) = ucast b OR push_bit 8 (usize_of_bytes bs)"

definition read_usize :: "memory \<Rightarrow> u64 \<Rightarrow> u64" where
  "read_usize m p = usize_of_bytes (map (\<lambda>j. m (p + of_nat j)) [0..<8])"

text \<open>\<^verbatim>\<open>memcpy(dst, src, n)\<close>: the \<open>n\<close> bytes at \<open>src\<close>, as they are before the call.\<close>

definition memcpy :: "memory \<Rightarrow> u64 \<Rightarrow> u64 \<Rightarrow> u64 \<Rightarrow> memory" where
  "memcpy m dst src n = (\<lambda>a. if a - dst < n then m (src + (a - dst)) else m a)"

definition arena_alloc :: "Arena \<Rightarrow> u64 \<Rightarrow> u64 \<Rightarrow> u64 \<times> Arena" where
  "arena_alloc arena sz align =
     (let block = data arena + allocated arena;
          ptr = alignptr (block + 8) align;
          new_size = allocated arena + (ptr - block) + sz
      in if new_size \<le> capacity arena then
           (ptr, arena\<lparr>memory := write_usize (memory arena) (ptr - 8) sz,
                        allocated := new_size\<rparr>)
         else (0, arena))"

text \<open>
  \<^verbatim>\<open>arena_realloc\<close>. The assertion computes \<^verbatim>\<open>(uintptr_t)block % align\<close>, a division by zero
  for \<^verbatim>\<open>align == 0\<close>. The subtraction \<^verbatim>\<open>(i64)size - (i64)block_size\<close>, converted back to
  \<^verbatim>\<open>usize\<close> by the addition, is the difference modulo \<open>2 ^ 64\<close>. The parameter \<^verbatim>\<open>size\<close> is \<open>sz\<close> throughout.
\<close>

definition arena_realloc :: "Arena \<Rightarrow> u64 \<Rightarrow> u64 \<Rightarrow> u64 \<Rightarrow> fault + u64 \<times> Arena" where
  "arena_realloc arena block sz align =
     (if block = 0 then Inr (arena_alloc arena sz align)
      else if align = 0 then Inl Div_By_Zero
      else if block mod align \<noteq> 0 then Inl Assert_Failed
      else
        let ptr = block;
            block_size = read_usize (memory arena) (ptr - 8);
            new_size = allocated arena + (sz - block_size)
        in if ptr + block_size = data arena + allocated arena then
             (if new_size \<le> capacity arena then
                Inr (ptr, arena\<lparr>memory := write_usize (memory arena) (ptr - 8) sz,
                                 allocated := new_size\<rparr>)
              else Inr (0, arena))
           else
             (case arena_alloc arena sz align of (new_block, arena') \<Rightarrow>
                if new_block \<noteq> 0 then
                  Inr (new_block,
                    arena'\<lparr>memory := memcpy (memory arena') new_block block (min block_size sz)\<rparr>)
                else Inr (new_block, arena')))"

definition arena_reset :: "Arena \<Rightarrow> Arena" where
  "arena_reset arena = arena\<lparr>allocated := 0\<rparr>"

text \<open>
  \<^verbatim>\<open>struct Linear_Allocator\<close>: the three function pointers are \<open>linear_alloc\<close>,
  \<open>linear_realloc\<close> and \<open>linear_free\<close> below; the arena that the field \<^verbatim>\<open>arena\<close> points to
  is passed to them as the state they work on, and returned.
\<close>

record Linear_Allocator =
  allocated_mark :: u64

definition linear_alloc :: "Linear_Allocator \<Rightarrow> Arena \<Rightarrow> u64 \<Rightarrow> u64 \<Rightarrow> u64 \<times> Arena" where
  "linear_alloc linear_allocator arena sz align = arena_alloc arena sz align"

definition linear_realloc ::
  "Linear_Allocator \<Rightarrow> Arena \<Rightarrow> u64 \<Rightarrow> u64 \<Rightarrow> u64 \<Rightarrow> fault + u64 \<times> Arena" where
  "linear_realloc linear_allocator arena block sz align = arena_realloc arena block sz align"

definition linear_free :: "Linear_Allocator \<Rightarrow> Arena \<Rightarrow> u64 \<Rightarrow> Arena" where
  "linear_free linear_allocator arena block = arena"

definition make_linear_allocator :: "Arena \<Rightarrow> Linear_Allocator" where
  "make_linear_allocator arena = \<lparr>allocated_mark = allocated arena\<rparr>"

text \<open>\<^verbatim>\<open>deinit(Linear_Allocator)\<close>\<close>

definition deinit_Linear_Allocator :: "Linear_Allocator \<Rightarrow> Arena \<Rightarrow> Arena" where
  "deinit_Linear_Allocator allocator arena = arena\<lparr>allocated := allocated_mark allocator\<rparr>"

text \<open>
  Calls made through the allocator interface of a \<^verbatim>\<open>Linear_Allocator\<close>
  (\<^verbatim>\<open>mem::alloc\<close>, \<^verbatim>\<open>mem::realloc\<close>, \<^verbatim>\<open>mem::free\<close>), and a sequence of them on one arena.
  A failed assertion ends the run.
\<close>

datatype linear_call =
    Call_alloc u64 u64
  | Call_realloc u64 u64 u64
  | Call_free u64

fun linear_step :: "Linear_Allocator \<Rightarrow> Arena \<Rightarrow> linear_call \<Rightarrow> fault + Arena" where
  "linear_step la arena (Call_alloc sz align) = Inr (snd (linear_alloc la arena sz align))"
| "linear_step la arena (Call_realloc block sz align) =
     (case linear_realloc la arena block sz align of
        Inl e \<Rightarrow> Inl e
      | Inr (p, arena') \<Rightarrow> Inr arena')"
| "linear_step la arena (Call_free block) = Inr (linear_free la arena block)"

fun linear_run :: "Linear_Allocator \<Rightarrow> Arena \<Rightarrow> linear_call list \<Rightarrow> fault + Arena" where
  "linear_run la arena [] = Inr arena"
| "linear_run la arena (c # cs) =
     (case linear_step la arena c of
        Inl e \<Rightarrow> Inl e
      | Inr arena' \<Rightarrow> linear_run la arena' cs)"

section \<open>core/table.h\<close>

text \<open>
  \<^verbatim>\<open>Table_Entry<K, V>\<close>: a \<^verbatim>\<open>Table_Pair<K, V>\<close> followed by the 64-bit signature.
  \<^verbatim>\<open>Table_Signature::EMPTY\<close> is \<open>0\<close>, \<^verbatim>\<open>TOMBSTONE\<close> is \<^verbatim>\<open>~0ull\<close>, that is \<open>- 1\<close>.
\<close>

record ('k, 'v) Table_Entry =
  key :: 'k
  val :: 'v
  sign :: u64

text \<open>
  An \<^verbatim>\<open>Allocator *\<close> is modelled by the identity of the allocator object it points to:
  the global \<^verbatim>\<open>mallocator\<close> (the \<^verbatim>\<open>DEFAULT_ALLOCATOR\<close> of core/memory.h) or any other
  allocator object. The calls \<^verbatim>\<open>mem::alloc\<close> and \<^verbatim>\<open>mem::free\<close> of the table code are
  recorded as events: an allocation of an array of \<open>n\<close> entries, and the release of an entry array.
\<close>

datatype Allocator = Mallocator | Allocator_Object nat

datatype ('k, 'v) mem_event =
    Mem_Alloc Allocator nat
  | Mem_Free Allocator "('k, 'v) Table_Entry list"

text \<open>
  \<^verbatim>\<open>Table<K, V>\<close>. The \<^verbatim>\<open>usize\<close> fields \<open>count\<close> and \<open>capacity\<close> and the probe indices are
  natural numbers. Of \<open>(count + 1) * 100\<close>, \<open>capacity * 70\<close>, \<open>capacity << 1\<close> and
  \<open>i + probe\<close> the first to wrap around at \<open>2 ^ 64\<close> is \<open>capacity * 70\<close>, at the capacity
  \<open>2 ^ 58\<close>: an array of \<open>2 ^ 58\<close> entries of at least 16 bytes each, \<open>2 ^ 62\<close> bytes, which
  no table the code can build has. The entry array is a list; \<^verbatim>\<open>NULL\<close> is the empty list
  (an allocated array has at least \<^verbatim>\<open>MIN_CAPACITY\<close> entries). \<^verbatim>\<open>mem::alloc\<close> is taken to succeed,
  as \<^verbatim>\<open>table_expand\<close> takes it to (it does not test the result).
\<close>

record ('k, 'v) Table =
  count :: nat
  entries :: "('k, 'v) Table_Entry list"
  capacity :: nat
  allocator :: Allocator
  hash_func :: "'k \<Rightarrow> u64"

definition LOAD_FACTOR :: nat where "LOAD_FACTOR = 70"
definition MIN_CAPACITY :: nat where "MIN_CAPACITY = 8"

text \<open>\<^verbatim>\<open>hash_fnv1a\<close>, over the bytes of the key.\<close>

fun hash_fnv1a_loop :: "u64 \<Rightarrow> u8 list \<Rightarrow> u64" where
  "hash_fnv1a_loop h [] = h"
| "hash_fnv1a_loop h (b # bs) = hash_fnv1a_loop ((h XOR ucast b) * 0x00000100000001B3) bs"

definition hash_fnv1a :: "u8 list \<Rightarrow> u64" where
  "hash_fnv1a bs = hash_fnv1a_loop 0xCBF29CE484222325 bs"

text \<open>
  \<^verbatim>\<open>table_auto_hash<int>\<close>: the key is not a slice, so the hash runs over the
  \<^verbatim>\<open>sizeof(int) = 4\<close> bytes of its representation, least significant byte first
  (a little-endian target).
\<close>

definition int_bytes :: "u32 \<Rightarrow> u8 list" where
  "int_bytes k = map (\<lambda>j. ucast (drop_bit (8 * j) k)) [0, 1, 2, 3]"

definition table_auto_hash :: "u32 \<Rightarrow> u64" where
  "table_auto_hash k = hash_fnv1a (int_bytes k)"

definition table_create_signature :: "u64 \<Rightarrow> u64" where
  "table_create_signature hash = drop_bit 2 hash OR 0x8000000000000000"

definition table_is_sentinel_entry :: "('k, 'v) Table_Entry \<Rightarrow> bool" where
  "table_is_sentinel_entry entry \<longleftrightarrow> sign entry = 0 \<or> sign entry = - 1"

definition make_table :: "('k \<Rightarrow> u64) \<Rightarrow> Allocator \<Rightarrow> ('k, 'v) Table" where
  "make_table hf a =
     \<lparr>count = 0, entries = [], capacity = 0, allocator = a, hash_func = hf\<rparr>"

text \<open>
  \<^verbatim>\<open>deinit(Table)\<close>: \<^verbatim>\<open>mem::free(table.entries)\<close>. The allocator argument of \<^verbatim>\<open>mem::free\<close> is
  left out, so it is the default of \<^verbatim>\<open>ALLOCATOR_PARAM\<close>: \<^verbatim>\<open>&DEFAULT_ALLOCATOR\<close>.
\<close>

definition deinit_Table :: "('k, 'v) Table \<Rightarrow> ('k, 'v) mem_event list" where
  "deinit_Table table = [Mem_Free Mallocator (entries table)]"

text \<open>The inner loop \<^verbatim>\<open>for (; i >= table->capacity;) i -= table->capacity;\<close>\<close>

partial_function (option) wrap_index :: "nat \<Rightarrow> nat \<Rightarrow> nat option" where
  "wrap_index i cap = (if i \<ge> cap then wrap_index (i - cap) cap else Some i)"

declare wrap_index.simps [code]

text \<open>
  One round of the probe loop's update part: \<^verbatim>\<open>i += probe; probe += 1;\<close> and the wrap-around.
\<close>

definition probe_next :: "nat \<Rightarrow> nat \<times> nat \<Rightarrow> (nat \<times> nat) option" where
  "probe_next cap ip =
     (case wrap_index (fst ip + snd ip) cap of
        None \<Rightarrow> None
      | Some i' \<Rightarrow> Some (i', snd ip + 1))"

text \<open>
  The probe loop of \<^verbatim>\<open>table_find_entry\<close>. A pointer to an entry is its index in the
  array; \<open>first_removed_slot\<close> and the result are \<open>None\<close> for \<^verbatim>\<open>NULL\<close>.
\<close>

partial_function (option) table_find_entry_loop ::
  "('k, 'v) Table_Entry list \<Rightarrow> nat \<Rightarrow> 'k \<Rightarrow> u64 \<Rightarrow> nat \<times> nat \<Rightarrow> nat option
     \<Rightarrow> nat option outcome" where
  "table_find_entry_loop es cap k sg ip first_removed_slot =
     (if fst ip \<ge> length es then Some (Inl Out_Of_Bounds)
      else if sign (es ! fst ip) = 0 then
        (case first_removed_slot of
           Some r \<Rightarrow> Some (Inr (Some r))
         | None \<Rightarrow> Some (Inr (Some (fst ip))))
      else if sign (es ! fst ip) = sg \<and> k = key (es ! fst ip) then Some (Inr (Some (fst ip)))
      else
        (case probe_next cap ip of
           None \<Rightarrow> None
         | Some ip' \<Rightarrow>
             table_find_entry_loop es cap k sg ip'
               (if sign (es ! fst ip) = - 1 \<and> first_removed_slot = None
                then Some (fst ip) else first_removed_slot)))"

declare table_find_entry_loop.simps [code]

text \<open>\<^verbatim>\<open>table_find_entry(table, key, sign)\<close>\<close>

definition table_find_entry_sign ::
  "('k, 'v) Table \<Rightarrow> 'k \<Rightarrow> u64 \<Rightarrow> nat option outcome" where
  "table_find_entry_sign table k sg =
     (if capacity table = count table then Some (Inr None)
      else if entries table = [] then Some (Inl Assert_Failed)
      else
        let hash = sg AND 0x3FFFFFFFFFFFFFFF;
            i = unat (hash AND (word_of_nat (capacity table) - 1))
        in table_find_entry_loop (entries table) (capacity table) k sg (i, 1) None)"

text \<open>\<^verbatim>\<open>table_find_entry(table, key)\<close>\<close>

definition table_find_entry :: "('k, 'v) Table \<Rightarrow> 'k \<Rightarrow> nat option outcome" where
  "table_find_entry table k =
     table_find_entry_sign table k (table_create_signature (hash_func table k))"

text \<open>
  \<^verbatim>\<open>table_find\<close>. The result points to the \<open>val\<close> field of the entry with the returned index.
  \<^verbatim>\<open>table_is_sentinel_entry\<close> reads through the pointer it is given, so a \<^verbatim>\<open>NULL\<close> from
  \<^verbatim>\<open>table_find_entry\<close> is a null dereference.
\<close>

definition table_find :: "('k, 'v) Table \<Rightarrow> 'k \<Rightarrow> nat option outcome" where
  "table_find table k =
     (if capacity table = 0 then Some (Inr None)
      else bind_outcome (table_find_entry table k) (\<lambda>r.
        case r of
          None \<Rightarrow> Some (Inl Null_Deref)
        | Some i \<Rightarrow>
            if \<not> table_is_sentinel_entry (entries table ! i) then Some (Inr (Some i))
            else Some (Inr None)))"

text \<open>
  The reinsertion loop of \<^verbatim>\<open>table_expand\<close>, over the old entries from the first to the last:
  each occupied one is stored in the copy at the slot found for its key and cached signature.
\<close>

fun table_expand_loop ::
  "('k, 'v) Table_Entry list \<Rightarrow> ('k, 'v) Table \<Rightarrow> ('k, 'v) Table outcome" where
  "table_expand_loop [] copy = Some (Inr copy)"
| "table_expand_loop (p # ps) copy =
     (if \<not> table_is_sentinel_entry p then
        bind_outcome (table_find_entry_sign copy (key p) (sign p)) (\<lambda>r.
          case r of
            None \<Rightarrow> Some (Inl Null_Deref)
          | Some i \<Rightarrow>
              table_expand_loop ps
                (copy\<lparr>entries := (entries copy)
                   [i := (entries copy ! i)\<lparr>key := key p, val := val p, sign := sign p\<rparr>]\<rparr>))
      else table_expand_loop ps copy)"

text \<open>
  \<^verbatim>\<open>table_expand\<close>. The fresh array is zeroed by \<^verbatim>\<open>memset\<close>: every entry has the all-zero key and
  value and the signature \<open>0\<close>. The result comes with the two allocator calls made, in order.
\<close>

definition table_expand ::
  "('k::zero, 'v::zero) Table \<Rightarrow> nat \<Rightarrow> (('k, 'v) Table \<times> ('k, 'v) mem_event list) outcome" where
  "table_expand table cap =
     (if cap = 0 then Some (Inl Assert_Failed)
      else if cap < capacity table then Some (Inl Assert_Failed)
      else if length (entries table) < capacity table then Some (Inl Out_Of_Bounds)
      else
        let cap' = nextpow2 cap;
            copy = \<lparr>count = count table,
                    entries = replicate cap' \<lparr>key = 0, val = 0, sign = 0\<rparr>,
                    capacity = cap',
                    allocator = allocator table,
                    hash_func = hash_func table\<rparr>
        in bind_outcome (table_expand_loop (take (capacity table) (entries table)) copy)
             (\<lambda>copy'. Some (Inr (copy',
                [Mem_Alloc (allocator table) cap', Mem_Free (allocator table) (entries table)]))))"

text \<open>
  The growth check that opens \<^verbatim>\<open>table_create_entry\<close>: the table as it is when the slot search
  for the insertion begins.
\<close>

definition table_create_entry_grow ::
  "('k::zero, 'v::zero) Table \<Rightarrow> (('k, 'v) Table \<times> ('k, 'v) mem_event list) outcome" where
  "table_create_entry_grow table =
     (let load_factor = (count table + 1) * 100 in
      if load_factor \<ge> capacity table * LOAD_FACTOR then
        (if capacity table \<ge> MIN_CAPACITY then table_expand table (capacity table * 2)
         else table_expand table MIN_CAPACITY)
      else Some (Inr (table, [])))"

text \<open>\<^verbatim>\<open>table_create_entry\<close>: the index of the entry, the table and the allocator calls.\<close>

definition table_create_entry ::
  "('k::zero, 'v::zero) Table \<Rightarrow> 'k
     \<Rightarrow> (nat \<times> ('k, 'v) Table \<times> ('k, 'v) mem_event list) outcome" where
  "table_create_entry table k =
     bind_outcome (table_create_entry_grow table) (\<lambda>(table, evs).
       let hash = hash_func table k;
           sg = table_create_signature hash
       in bind_outcome (table_find_entry_sign table k sg) (\<lambda>r.
            case r of
              None \<Rightarrow> Some (Inl Null_Deref)
            | Some i \<Rightarrow>
                if table_is_sentinel_entry (entries table ! i) then
                  Some (Inr (i,
                    table\<lparr>entries := (entries table)[i := (entries table ! i)\<lparr>key := k, sign := sg\<rparr>],
                          count := count table + 1\<rparr>, evs))
                else Some (Inr (i, table, evs))))"

text \<open>\<^verbatim>\<open>table_update\<close>: the result points to the \<open>val\<close> field of the entry with the returned index.\<close>

definition table_update ::
  "('k::zero, 'v::zero) Table \<Rightarrow> 'k \<Rightarrow> 'v
     \<Rightarrow> (nat \<times> ('k, 'v) Table \<times> ('k, 'v) mem_event list) outcome" where
  "table_update table k v =
     bind_outcome (table_create_entry table k) (\<lambda>(i, table, evs).
       Some (Inr (i, table\<lparr>entries := (entries table)[i := (entries table ! i)\<lparr>val := v\<rparr>]\<rparr>, evs)))"

text \<open>\<^verbatim>\<open>table_remove\<close>\<close>

definition table_remove :: "('k, 'v) Table \<Rightarrow> 'k \<Rightarrow> (bool \<times> ('k, 'v) Table) outcome" where
  "table_remove table k =
     (if count table > 0 then
        bind_outcome (table_find_entry table k) (\<lambda>r.
          case r of
            None \<Rightarrow> Some (Inl Null_Deref)
          | Some i \<Rightarrow>
              if \<not> table_is_sentinel_entry (entries table ! i) then
                Some (Inr (True,
                  table\<lparr>entries := (entries table)[i := (entries table ! i)\<lparr>sign := - 1\<rparr>],
                        count := count table - 1\<rparr>))
              else Some (Inr (False, table)))
      else Some (Inr (False, table)))"

text \<open>
  \<^verbatim>\<open>table_clear\<close> calls \<^verbatim>\<open>memset(table->entries, 0, table->capacity)\<close>: the third argument of
  \<^verbatim>\<open>memset\<close> is a number of bytes. What the call does to the entries depends on the layout of
  \<^verbatim>\<open>Table_Entry<K, V>\<close>, which is a parameter here: the size of an entry in bytes, and the
  effect on an entry of zeroing its first \<open>b\<close> bytes.
\<close>

record ('k, 'v) entry_layout =
  entry_size :: nat
  zero_prefix :: "nat \<Rightarrow> ('k, 'v) Table_Entry \<Rightarrow> ('k, 'v) Table_Entry"

text \<open>\<^verbatim>\<open>memset(es, 0, n)\<close> on an entry array: entry \<open>j\<close> starts at byte \<open>j * entry_size\<close>.\<close>

definition memset_zero ::
  "('k, 'v) entry_layout \<Rightarrow> ('k, 'v) Table_Entry list \<Rightarrow> nat \<Rightarrow> ('k, 'v) Table_Entry list" where
  "memset_zero L es n =
     map (\<lambda>j. zero_prefix L (min (entry_size L) (n - j * entry_size L)) (es ! j)) [0..<length es]"

definition table_clear ::
  "('k, 'v) entry_layout \<Rightarrow> ('k, 'v) Table \<Rightarrow> ('k, 'v) Table outcome" where
  "table_clear L table =
     (if capacity table > entry_size L * length (entries table) then Some (Inl Out_Of_Bounds)
      else Some (Inr (table\<lparr>entries := memset_zero L (entries table) (capacity table),
                            count := 0\<rparr>)))"

text \<open>
  The layout of \<^verbatim>\<open>Table_Entry<int, int>\<close> on a little-endian LP64 target: \<open>key\<close> in bytes 0 to 3,
  \<open>val\<close> in bytes 4 to 7, \<open>sign\<close> in bytes 8 to 15; 16 bytes in all. The first bytes of a field
  are its least significant ones.
\<close>

definition zero_low_bytes :: "nat \<Rightarrow> 'a::len word \<Rightarrow> 'a word" where
  "zero_low_bytes b w = push_bit (8 * b) (drop_bit (8 * b) w)"

definition int_int_layout :: "(u32, u32) entry_layout" where
  "int_int_layout =
     \<lparr>entry_size = 16,
      zero_prefix = (\<lambda>b e. \<lparr>key = zero_low_bytes b (key e),
                            val = zero_low_bytes (b - 4) (val e),
                            sign = zero_low_bytes (b - 8) (sign e)\<rparr>)\<rparr>"

text \<open>Sequences of calls on one table; a call that aborts or does not return ends the run.\<close>

datatype ('k, 'v) table_op = Op_Update 'k 'v | Op_Remove 'k | Op_Clear

fun table_step ::
  "('k::zero, 'v::zero) entry_layout \<Rightarrow> ('k, 'v) Table \<Rightarrow> ('k, 'v) table_op
     \<Rightarrow> ('k, 'v) Table outcome" where
  "table_step L table (Op_Update k v) =
     bind_outcome (table_update table k v) (\<lambda>(i, table', evs). Some (Inr table'))"
| "table_step L table (Op_Remove k) =
     bind_outcome (table_remove table k) (\<lambda>(b, table'). Some (Inr table'))"
| "table_step L table Op_Clear = table_clear L table"

fun table_run ::
  "('k::zero, 'v::zero) entry_layout \<Rightarrow> ('k, 'v) Table \<Rightarrow> ('k, 'v) table_op list
     \<Rightarrow> ('k, 'v) Table outcome" where
  "table_run L table [] = Some (Inr table)"
| "table_run L table (x # xs) = bind_outcome (table_step L table x) (\<lambda>table'. table_run L table' xs)"

section \<open>Notions used in the statements\<close>

text \<open>
  The values of \<open>(i, probe)\<close> at the successive evaluations of the probe loop's condition, for as
  long as the loop has not returned: \<open>probe_sequence cap start n\<close> is the pair at the
  evaluation number \<open>n\<close>, counted from 0, so its first component is the index of the slot probed
  then. \<open>tri n\<close> is the triangular number \<open>0 + 1 + \<dots> + n\<close>.
\<close>

fun probe_sequence :: "nat \<Rightarrow> nat \<Rightarrow> nat \<Rightarrow> (nat \<times> nat) option" where
  "probe_sequence cap start 0 = Some (start, 1)"
| "probe_sequence cap start (Suc n) =
     (case probe_sequence cap start n of None \<Rightarrow> None | Some ip \<Rightarrow> probe_next cap ip)"

definition tri :: "nat \<Rightarrow> nat" where "tri n = n * (n + 1) div 2"

text \<open>
  What the table operations keep true of a table: the array has \<open>capacity\<close> entries, and either
  the table is as \<^verbatim>\<open>make_table\<close> left it or its capacity is a power of two, at least 8, with
  \<open>count\<close> below 70 percent of it.
\<close>

definition table_inv :: "('k, 'v) Table \<Rightarrow> bool" where
  "table_inv table \<longleftrightarrow>
     length (entries table) = capacity table
     \<and> (capacity table = 0 \<and> count table = 0
        \<or> (\<exists>k. 3 \<le> k \<and> capacity table = 2 ^ k) \<and> count table * 100 < capacity table * 70)"

text \<open>
  The pointer \<^verbatim>\<open>arena_alloc\<close> would return for an alignment, and the padding between the 8-byte
  size header at the cursor and that pointer: what \<^verbatim>\<open>alignptr\<close> adds to \<^verbatim>\<open>block + sizeof(usize)\<close>.
\<close>

definition arena_padding :: "Arena \<Rightarrow> u64 \<Rightarrow> u64" where
  "arena_padding arena align = (- (data arena + allocated arena + 8)) AND (align - 1)"

definition arena_block_ptr :: "Arena \<Rightarrow> u64 \<Rightarrow> u64" where
  "arena_block_ptr arena align = alignptr (data arena + allocated arena + 8) align"

text \<open>
  The size stored in the header of a block, as \<^verbatim>\<open>arena_realloc\<close> reads it, and what makes a
  non-null pointer a valid block of an arena: the arena's buffer does not run past the end of the
  address space, the cursor is within the capacity, and the block, from the end of its header to
  the end of its stored size, lies in the allocated part of the buffer. A pointer returned by
  \<^verbatim>\<open>arena_alloc\<close> is one (\<open>arena_alloc_valid_block\<close> below).
\<close>

definition block_size :: "Arena \<Rightarrow> u64 \<Rightarrow> u64" where
  "block_size arena block = read_usize (memory arena) (block - 8)"

definition valid_block :: "Arena \<Rightarrow> u64 \<Rightarrow> bool" where
  "valid_block arena block \<longleftrightarrow>
     unat (data arena) + unat (Arena.capacity arena) < 2 ^ 64
     \<and> allocated arena \<le> Arena.capacity arena
     \<and> unat (data arena) + 8 \<le> unat block
     \<and> unat block + unat (block_size arena block) \<le> unat (data arena) + unat (allocated arena)"

section \<open>Example inputs\<close>

text \<open>
  \<^verbatim>\<open>make_table<int, int>()\<close> with its default arguments, and a table with the same hash
  function made with another allocator than the default one.
\<close>

definition default_table :: "(u32, u32) Table" where
  "default_table = make_table table_auto_hash Mallocator"

definition linear_table :: "(u32, u32) Table" where
  "linear_table = make_table table_auto_hash (Allocator_Object 1)"

text \<open>
  Eight keys whose hashes start their probe sequences at the eight different slots of a table of
  capacity 8, each inserted and removed again.
\<close>

definition tombstone_calls :: "(u32, u32) table_op list" where
  "tombstone_calls = concat (map (\<lambda>k. [Op_Update k 7, Op_Remove k]) [0, 1, 4, 5, 8, 9, 12, 13])"

text \<open>Five insertions into a fresh \<^verbatim>\<open>Table<int, int>\<close>.\<close>

definition five_updates :: "(u32, u32) table_op list" where
  "five_updates = map (\<lambda>k. Op_Update k (10 * k)) [0, 1, 2, 3, 4]"

text \<open>
  An arena of 512 bytes whose data starts at the 16-byte aligned address \<open>0x1010\<close>, each byte
  of memory \<open>0xFF\<close>: \<^verbatim>\<open>make_arena(528, buffer)\<close> on a buffer at \<open>0x1000\<close>, filled as the
  test "Arena" fills its arena. Then the same arena after one allocation of 8 bytes, and after a
  second one of 4 bytes.
\<close>

definition test_arena :: Arena where
  "test_arena = \<lparr>Arena.capacity = 512, allocated = 0, data = 0x1010, memory = (\<lambda>a. 0xFF)\<rparr>"

definition one_block_arena :: Arena where
  "one_block_arena = snd (arena_alloc test_arena 8 16)"

definition two_block_arena :: Arena where
  "two_block_arena = snd (arena_alloc one_block_arena 4 16)"

text \<open>Calls through a scoped allocator on \<open>test_arena\<close>.\<close>

definition scope_calls :: "linear_call list" where
  "scope_calls = [Call_alloc 4 16, Call_alloc 4 16, Call_realloc 0x1030 12 16, Call_free 0x1020]"

section \<open>The probe loop\<close>

lemma wrap_index_mod: "0 < cap \<Longrightarrow> wrap_index i cap = Some (i mod cap)"
proof (induction i rule: less_induct)
  case (less i)
  show ?case
  proof (cases "cap \<le> i")
    case True
    then have "i - cap < i" using less.prems by simp
    from less.IH[OF this less.prems] True show ?thesis
      by (subst wrap_index.simps) (simp add: le_mod_geq)
  next
    case False
    then show ?thesis by (subst wrap_index.simps) simp
  qed
qed

lemma probe_next_mod:
  "0 < cap \<Longrightarrow> probe_next cap ip = Some ((fst ip + snd ip) mod cap, snd ip + 1)"
  by (simp add: probe_next_def wrap_index_mod)

lemma table_create_signature_not_tombstone: "table_create_signature h \<noteq> - 1"
proof
  assume "table_create_signature h = - 1"
  then have "bit (table_create_signature h) 62 = bit (- 1 :: u64) 62" by simp
  then show False
    by (auto simp: table_create_signature_def bit_simps dest: bit_imp_le_length)
qed

text \<open>No empty slot and no slot that matches: the probe loop has no exit.\<close>

lemma table_find_entry_loop_no_exit:
  assumes "table_find_entry_loop es cap k sg ip fr = Some y"
  shows "\<not> (0 < cap \<and> cap \<le> length es \<and> fst ip < cap
            \<and> (\<forall>e \<in> set es. sign e \<noteq> 0 \<and> \<not> (sign e = sg \<and> k = key e)))"
proof (rule table_find_entry_loop.raw_induct
    [where P = "\<lambda>es cap k sg ip fr y. \<not> (0 < cap \<and> cap \<le> length es \<and> fst ip < cap
            \<and> (\<forall>e \<in> set es. sign e \<noteq> 0 \<and> \<not> (sign e = sg \<and> k = key e)))", OF _ assms])
  fix loop :: "('a, 'b) Table_Entry list \<Rightarrow> nat \<Rightarrow> 'a \<Rightarrow> u64 \<Rightarrow> nat \<times> nat \<Rightarrow> nat option
     \<Rightarrow> nat option outcome"
  fix es cap k sg ip fr y
  assume IH: "\<And>es cap k sg ip fr y. loop es cap k sg ip fr = Some y \<Longrightarrow>
      \<not> (0 < cap \<and> cap \<le> length es \<and> fst ip < cap
            \<and> (\<forall>e \<in> set es. sign e \<noteq> 0 \<and> \<not> (sign e = sg \<and> k = key e)))"
  assume eq: "(if length es \<le> fst ip then Some (Inl Out_Of_Bounds)
      else if sign (es ! fst ip) = 0
           then case fr of None \<Rightarrow> Some (Inr (Some (fst ip)))
                | Some r \<Rightarrow> Some (Inr (Some r))
           else if sign (es ! fst ip) = sg \<and> k = key (es ! fst ip)
                then Some (Inr (Some (fst ip)))
                else case probe_next cap ip of None \<Rightarrow> None
                     | Some ip' \<Rightarrow>
                         loop es cap k sg ip'
                          (if sign (es ! fst ip) = - 1 \<and> fr = None
                           then Some (fst ip) else fr)) = Some y"
  show "\<not> (0 < cap \<and> cap \<le> length es \<and> fst ip < cap
            \<and> (\<forall>e \<in> set es. sign e \<noteq> 0 \<and> \<not> (sign e = sg \<and> k = key e)))"
  proof
    assume h: "0 < cap \<and> cap \<le> length es \<and> fst ip < cap
            \<and> (\<forall>e \<in> set es. sign e \<noteq> 0 \<and> \<not> (sign e = sg \<and> k = key e))"
    then have e: "es ! fst ip \<in> set es" by simp
    let ?ip' = "((fst ip + snd ip) mod cap, snd ip + 1)"
    let ?fr' = "if sign (es ! fst ip) = - 1 \<and> fr = None then Some (fst ip) else fr"
    from h e have ne: "sign (es ! fst ip) \<noteq> 0"
      "\<not> (sign (es ! fst ip) = sg \<and> k = key (es ! fst ip))" by blast+
    from h have inb: "\<not> length es \<le> fst ip" and pn: "probe_next cap ip = Some ?ip'"
      by (simp_all add: probe_next_mod)
    from eq have "loop es cap k sg ?ip' ?fr' = Some y"
      by (simp only: inb ne pn if_False option.case)
    from IH[OF this] h show False by simp
  qed
qed

lemma table_find_entry_loop_diverges:
  assumes "0 < cap" "cap \<le> length es" "fst ip < cap"
    and "\<forall>e \<in> set es. sign e \<noteq> 0 \<and> \<not> (sign e = sg \<and> k = key e)"
  shows "table_find_entry_loop es cap k sg ip fr = None"
proof (cases "table_find_entry_loop es cap k sg ip fr")
  case (Some y)
  from table_find_entry_loop_no_exit[OF this] assms show ?thesis by simp
qed simp

lemma tombstone_table:
  "(case table_run int_int_layout default_table tombstone_calls of
      Some (Inr table) \<Rightarrow>
        count table = 0 \<and> capacity table = 8 \<and> length (entries table) = 8
        \<and> list_all (\<lambda>e. sign e = - 1) (entries table)
    | _ \<Rightarrow> False)"
  by code_simp


section \<open>Triangular probing\<close>

lemma two_tri: "2 * tri n = n * (n + 1)"
  by (simp add: tri_def)

lemma tri_Suc: "tri (Suc n) = tri n + Suc n"
proof -
  have "2 * tri (Suc n) = Suc n * (Suc n + 1)" by (rule two_tri)
  also have "\<dots> = n * (n + 1) + 2 * Suc n" by simp
  also have "\<dots> = 2 * tri n + 2 * Suc n" by (simp only: two_tri)
  finally show ?thesis by simp
qed

lemma tri_mono: "i \<le> j \<Longrightarrow> tri i \<le> tri j"
proof -
  assume "i \<le> j"
  then have "i * (i + 1) \<le> j * (j + 1)" by (intro mult_le_mono) simp_all
  then show ?thesis unfolding tri_def by (rule div_le_mono)
qed

lemma tri_diff: "i \<le> j \<Longrightarrow> 2 * (tri j - tri i) = (j - i) * (j + i + 1)"
proof -
  assume le: "i \<le> j"
  then obtain d where j: "j = i + d" using le_Suc_ex by blast
  have "2 * (tri j - tri i) = 2 * tri j - 2 * tri i" by simp
  also have "\<dots> = j * (j + 1) - i * (i + 1)" by (simp only: two_tri)
  also have "\<dots> = (j - i) * (j + i + 1)" by (simp add: j algebra_simps)
  finally show ?thesis .
qed

lemma probe_index_inj:
  assumes "i < j" "j < 2 ^ k"
  shows "(s + tri i) mod 2 ^ k \<noteq> (s + tri j) mod 2 ^ k"
proof
  assume eq: "(s + tri i) mod 2 ^ k = (s + tri j) mod 2 ^ k"
  have le: "s + tri i \<le> s + tri j" using assms tri_mono[of i j] by simp
  have "(2::nat) ^ k dvd (s + tri j) - (s + tri i)"
    using mod_eq_dvd_iff_nat[OF le, of "2 ^ k"] eq by simp
  then have "(2::nat) ^ k dvd tri j - tri i" by simp
  then have "2 * (2::nat) ^ k dvd 2 * (tri j - tri i)" by (rule mult_dvd_mono[OF dvd_refl])
  then have d: "(2::nat) ^ Suc k dvd (j - i) * (j + i + 1)"
    using assms by (simp add: tri_diff)
  have pos1: "0 < j - i" and b1: "j - i < 2 ^ Suc k" using assms by simp_all
  have pos2: "0 < j + i + 1" and b2: "j + i + 1 < 2 ^ Suc k" using assms by simp_all
  show False
  proof (cases "odd (j - i)")
    case True
    then have cop: "coprime ((2::nat) ^ Suc k) (j - i)" by simp
    have "(2::nat) ^ Suc k dvd j + i + 1"
      using coprime_dvd_mult_right_iff[OF cop] d by blast
    from dvd_imp_le[OF this pos2] b2 show False by simp
  next
    case False
    then have "odd (j + i + 1)" using assms by (simp add: even_diff_nat)
    then have cop: "coprime ((2::nat) ^ Suc k) (j + i + 1)" by simp
    have "(2::nat) ^ Suc k dvd j - i"
      using coprime_dvd_mult_left_iff[OF cop] d by blast
    from dvd_imp_le[OF this pos1] b1 show False by simp
  qed
qed

lemma probe_index_bij:
  "bij_betw (\<lambda>i. (s + tri i) mod 2 ^ k) {..<2 ^ k} {..<2 ^ k}"
proof -
  let ?f = "\<lambda>i. (s + tri i) mod 2 ^ k"
  have inj: "inj_on ?f {..<2 ^ k}"
  proof (rule inj_onI)
    fix x y assume "x \<in> {..<(2::nat) ^ k}" "y \<in> {..<(2::nat) ^ k}" "?f x = ?f y"
    then show "x = y"
      using probe_index_inj[of x y k s] probe_index_inj[of y x k s]
      by (cases x y rule: linorder_cases) auto
  qed
  have "?f ` {..<2 ^ k} \<subseteq> {..<2 ^ k}" by auto
  with inj have "?f ` {..<2 ^ k} = {..<2 ^ k}"
    by (intro endo_inj_surj) simp_all
  with inj show ?thesis by (simp add: bij_betw_def)
qed


lemma probe_sequence_tri:
  assumes "0 < cap" "start < cap"
  shows "probe_sequence cap start n = Some ((start + tri n) mod cap, n + 1)"
proof (induction n)
  case 0
  show ?case using assms by (simp add: tri_def)
next
  case (Suc n)
  have "((start + tri n) mod cap + (n + 1)) mod cap = (start + tri n + (n + 1)) mod cap"
    by (rule mod_add_left_eq)
  also have "start + tri n + (n + 1) = start + tri (Suc n)"
    by (simp add: tri_Suc)
  finally have "((start + tri n) mod cap + (n + 1)) mod cap = (start + tri (Suc n)) mod cap" .
  with Suc show ?case using assms by (simp add: probe_next_mod)
qed

lemma probe_start_less: "0 < cap \<Longrightarrow> unat ((h :: u64) AND (word_of_nat cap - 1)) < cap"
proof (cases "cap < 2 ^ 64")
  case True
  assume pos: "0 < cap"
  have "(word_of_nat cap - 1 :: u64) = word_of_nat (cap - 1)" using pos by simp
  moreover have "unat (word_of_nat (cap - 1) :: u64) = cap - 1"
    using True by (simp add: unat_of_nat)
  moreover have "h AND (word_of_nat cap - 1) \<le> word_of_nat cap - 1" by (rule word_and_le1)
  ultimately have "unat (h AND (word_of_nat cap - 1)) \<le> cap - 1"
    by (simp add: word_le_nat_alt)
  with pos show ?thesis by simp
next
  case False
  have "unat (h AND (word_of_nat cap - 1)) < 2 ^ 64"
    using unsigned_less[of "h AND (word_of_nat cap - 1)"] by simp
  with False show ?thesis by simp
qed

text \<open>With an empty slot in a table of power-of-two capacity, the probe loop returns a slot.\<close>

lemma table_find_entry_loop_returns_aux:
  assumes cap: "length es = 2 ^ k" "start < 2 ^ k"
    and empty: "sign (es ! ((start + tri m) mod 2 ^ k)) = 0"
  shows "n \<le> m \<Longrightarrow> (\<forall>r. fr = Some r \<longrightarrow> r < 2 ^ k) \<Longrightarrow>
    \<exists>r < 2 ^ k. table_find_entry_loop es (2 ^ k) q sg ((start + tri n) mod 2 ^ k, n + 1) fr
      = Some (Inr (Some r))"
proof (induction "m - n" arbitrary: n fr)
  case 0
  then have "n = m" by simp
  moreover have "\<not> (2::nat) ^ k \<le> (start + tri m) mod 2 ^ k" by (simp add: not_le)
  ultimately show ?case
    using empty "0.prems"(2) cap
    by (subst table_find_entry_loop.simps) (auto split: option.splits)
next
  case (Suc d)
  let ?i = "(start + tri n) mod 2 ^ k"
  let ?fr' = "if sign (es ! ?i) = - 1 \<and> fr = None then Some ?i else fr"
  have i: "?i < 2 ^ k" by simp
  have il: "?i < length es" using cap by simp
  have "(?i + (n + 1)) mod 2 ^ k = (start + tri n + (n + 1)) mod 2 ^ k"
    by (rule mod_add_left_eq)
  also have "start + tri n + (n + 1) = start + tri (Suc n)"
    by (simp add: tri_Suc)
  finally have next_eq:
    "probe_next (2 ^ k) (?i, n + 1) = Some ((start + tri (Suc n)) mod 2 ^ k, Suc n + 1)"
    by (simp add: probe_next_mod)
  have "\<exists>r < 2 ^ k. table_find_entry_loop es (2 ^ k) q sg
      ((start + tri (Suc n)) mod 2 ^ k, Suc n + 1) ?fr' = Some (Inr (Some r))"
    using Suc.hyps(2) Suc.prems i by (intro Suc.hyps(1)) auto
  then show ?case
    using Suc.prems(2) i il next_eq
    by (subst table_find_entry_loop.simps) (auto split: option.splits)
qed

lemma table_find_entry_loop_returns:
  assumes "length es = 2 ^ k" "start < 2 ^ k" "j < 2 ^ k" "sign (es ! j) = 0"
  shows "\<exists>r < 2 ^ k. table_find_entry_loop es (2 ^ k) q sg (start, 1) None = Some (Inr (Some r))"
proof -
  from probe_index_bij[of start k] assms(3)
  obtain m where m: "(start + tri m) mod 2 ^ k = j"
    unfolding bij_betw_def by (metis (no_types, lifting) imageE lessThan_iff)
  have "(start + tri 0) mod 2 ^ k = start" using assms(2) by (simp add: tri_def)
  with table_find_entry_loop_returns_aux[where es = es and k = k and start = start and m = m
      and n = 0 and fr = None and q = q and sg = sg] assms m
  show ?thesis by simp
qed

section \<open>Growth and the load factor\<close>

lemma nextpow2_power: "nextpow2 (2 ^ Suc k) = 2 ^ Suc k"
proof -
  have "(2::nat) ^ Suc k - 1 < 2 ^ Suc k" by simp
  then have le: "floorlog 2 (2 ^ Suc k - 1) \<le> Suc k" by (intro floorlog_leI) simp_all
  have "(2::nat) ^ (Suc k - 1) \<le> 2 ^ Suc k - 1"
    using one_le_power[of "2::nat" k] by simp
  then have "Suc k \<le> floorlog 2 (2 ^ Suc k - 1)" by (intro floorlog_geI) simp_all
  with le have fl: "floorlog 2 (2 ^ Suc k - 1) = Suc k" by (rule le_antisym)
  have ne: "(2::nat) ^ Suc k \<noteq> 1" by simp
  have "nextpow2 (2 ^ Suc k) = 2 ^ floorlog 2 (2 ^ Suc k - 1)"
    unfolding nextpow2_def using ne by (simp only: if_False)
  then show ?thesis by (simp only: fl)
qed

lemma nextpow2_MIN_CAPACITY: "nextpow2 MIN_CAPACITY = 2 ^ 3"
  using nextpow2_power[of 2] by (simp add: MIN_CAPACITY_def)

lemma length_filter_update:
  "length (filter P (xs[i := x])) \<le> Suc (length (filter P xs))"
proof (induction xs arbitrary: i)
  case Nil
  show ?case by simp
next
  case (Cons a xs)
  show ?case
  proof (cases i)
    case 0
    then show ?thesis by simp
  next
    case (Suc j)
    with Cons[of j] show ?thesis by simp
  qed
qed

lemma filter_less_witness:
  assumes "length (filter P xs) < length xs"
  shows "\<exists>j < length xs. \<not> P (xs ! j)"
proof (rule ccontr)
  assume "\<not> (\<exists>j < length xs. \<not> P (xs ! j))"
  then have "\<forall>x \<in> set xs. P x" by (auto simp: in_set_conv_nth)
  then have "filter P xs = xs" by simp
  with assms show False by simp
qed

lemma table_find_entry_sign_returns:
  assumes "capacity table = 2 ^ k" "length (entries table) = capacity table"
    "count table \<noteq> capacity table"
    "length (filter (\<lambda>e. sign e \<noteq> 0) (entries table)) < capacity table"
  shows "\<exists>r < capacity table. table_find_entry_sign table q sg = Some (Inr (Some r))"
proof -
  from filter_less_witness[of "\<lambda>e. sign e \<noteq> 0" "entries table"] assms
  obtain j where j: "j < 2 ^ k" "sign (entries table ! j) = 0" by auto
  let ?start = "unat ((sg AND 0x3FFFFFFFFFFFFFFF) AND (word_of_nat (capacity table) - 1))"
  have start: "?start < 2 ^ k"
    using probe_start_less[of "capacity table" "sg AND 0x3FFFFFFFFFFFFFFF"] assms(1) by simp
  have ne: "entries table \<noteq> []" using assms(1,2) by auto
  from table_find_entry_loop_returns[of "entries table" k ?start j q sg] assms(1,2) start j
  obtain r where "r < 2 ^ k"
    "table_find_entry_loop (entries table) (2 ^ k) q sg (?start, 1) None = Some (Inr (Some r))"
    by auto
  then show ?thesis
    using assms(1,3) ne by (auto simp: table_find_entry_sign_def Let_def)
qed

lemma table_expand_loop_returns:
  assumes "capacity copy = 2 ^ k" "length (entries copy) = capacity copy"
    "count copy \<noteq> capacity copy"
    "length (filter (\<lambda>e. sign e \<noteq> 0) (entries copy)) + length ps < capacity copy"
  shows "\<exists>copy'. table_expand_loop ps copy = Some (Inr copy')
    \<and> count copy' = count copy \<and> capacity copy' = capacity copy
    \<and> length (entries copy') = capacity copy \<and> allocator copy' = allocator copy
    \<and> hash_func copy' = hash_func copy"
  using assms
proof (induction ps arbitrary: copy)
  case Nil
  then show ?case by simp
next
  case (Cons p ps)
  show ?case
  proof (cases "table_is_sentinel_entry p")
    case True
    with Cons.IH[of copy] Cons.prems show ?thesis by simp
  next
    case False
    from table_find_entry_sign_returns[of copy k "key p" "sign p"] Cons.prems
    obtain r where r: "r < capacity copy"
      "table_find_entry_sign copy (key p) (sign p) = Some (Inr (Some r))" by auto
    let ?copy = "copy\<lparr>entries := (entries copy)
                   [r := (entries copy ! r)\<lparr>key := key p, val := val p, sign := sign p\<rparr>]\<rparr>"
    have "length (filter (\<lambda>e. sign e \<noteq> 0) (entries ?copy))
        \<le> Suc (length (filter (\<lambda>e. sign e \<noteq> 0) (entries copy)))"
      by (simp add: length_filter_update)
    then have "length (filter (\<lambda>e. sign e \<noteq> 0) (entries ?copy)) + length ps < capacity ?copy"
      using Cons.prems(4) by simp
    with Cons.IH[of ?copy] Cons.prems(1-3)
    obtain copy' where "table_expand_loop ps ?copy = Some (Inr copy')"
      "count copy' = count copy" "capacity copy' = capacity copy"
      "length (entries copy') = capacity copy" "allocator copy' = allocator copy"
      "hash_func copy' = hash_func copy" by auto
    with False r show ?thesis by (simp add: bind_outcome_def)
  qed
qed

lemma table_expand_returns:
  assumes "length (entries table) = capacity table" "0 < cap" "capacity table < cap"
    "count table < cap" "nextpow2 cap = 2 ^ k" "cap \<le> nextpow2 cap"
  shows "\<exists>table' evs. table_expand table cap = Some (Inr (table', evs))
    \<and> count table' = count table \<and> capacity table' = nextpow2 cap
    \<and> length (entries table') = nextpow2 cap"
proof -
  let ?copy = "\<lparr>count = count table,
                entries = replicate (nextpow2 cap) \<lparr>key = 0, val = 0, sign = 0\<rparr>,
                capacity = nextpow2 cap,
                allocator = allocator table,
                hash_func = hash_func table\<rparr>"
  have "length (filter (\<lambda>e. sign e \<noteq> 0) (entries ?copy))
      + length (take (capacity table) (entries table)) < capacity ?copy"
    using assms by simp
  with table_expand_loop_returns[of ?copy k "take (capacity table) (entries table)"] assms
  obtain copy' where "table_expand_loop (take (capacity table) (entries table)) ?copy
      = Some (Inr copy')" "count copy' = count table" "capacity copy' = nextpow2 cap"
    "length (entries copy') = nextpow2 cap" by auto
  then show ?thesis
    using assms by (simp add: table_expand_def Let_def bind_outcome_def)
qed

lemma table_create_entry_grow_returns:
  assumes "table_inv table"
  shows "\<exists>table' evs. table_create_entry_grow table = Some (Inr (table', evs))
    \<and> table_inv table' \<and> count table' = count table
    \<and> capacity table' =
        (if (count table + 1) * 100 \<ge> capacity table * 70
         then (if capacity table \<ge> 8 then capacity table * 2 else 8) else capacity table)
    \<and> (count table' + 1) * 100 < capacity table' * 70"
proof (cases "(count table + 1) * 100 \<ge> capacity table * 70")
  case False
  with assms show ?thesis
    by (auto simp: table_create_entry_grow_def LOAD_FACTOR_def table_inv_def)
next
  case grow: True
  show ?thesis
  proof (cases "capacity table = 0")
    case True
    with assms have c: "count table = 0" "length (entries table) = 0"
      by (auto simp: table_inv_def)
    from table_expand_returns[of table MIN_CAPACITY 3] True c nextpow2_MIN_CAPACITY
    obtain table' evs where "table_expand table MIN_CAPACITY = Some (Inr (table', evs))"
      "count table' = 0" "capacity table' = 8" "length (entries table') = 8"
      by (auto simp: MIN_CAPACITY_def)
    with True c grow show ?thesis
      by (auto simp: table_create_entry_grow_def LOAD_FACTOR_def MIN_CAPACITY_def table_inv_def
          intro!: exI[of _ 3])
  next
    case False
    with assms obtain k where k: "3 \<le> k" "capacity table = 2 ^ k"
      and lf: "count table * 100 < capacity table * 70"
      and len: "length (entries table) = capacity table"
      by (auto simp: table_inv_def)
    have cap8: "8 \<le> capacity table"
      using power_increasing[OF k(1), of "2::nat"] k(2) by simp
    have np: "nextpow2 (capacity table * 2) = 2 ^ Suc k"
      using nextpow2_power[of k] k(2) by (simp add: mult.commute)
    from table_expand_returns[of table "capacity table * 2" "Suc k"] len lf cap8 np k
    obtain table' evs where "table_expand table (capacity table * 2) = Some (Inr (table', evs))"
      "count table' = count table" "capacity table' = 2 ^ Suc k"
      "length (entries table') = 2 ^ Suc k"
      by auto
    with grow cap8 k lf show ?thesis
      by (auto simp: table_create_entry_grow_def LOAD_FACTOR_def MIN_CAPACITY_def table_inv_def
          intro!: exI[of _ "Suc k"])
  qed
qed


lemma make_table_inv: "table_inv (make_table hf a)"
  by (simp add: table_inv_def make_table_def)

lemma table_create_entry_inv:
  assumes "table_inv table" "table_create_entry table q = Some (Inr (i, table', evs))"
  shows "table_inv table'"
proof -
  from table_create_entry_grow_returns[OF assms(1)]
  obtain t1 evs1 where g: "table_create_entry_grow table = Some (Inr (t1, evs1))"
    and inv1: "table_inv t1" and lf: "(count t1 + 1) * 100 < capacity t1 * 70"
    by blast
  from lf have pos: "capacity t1 \<noteq> 0" by auto
  with inv1 lf have inv2: "table_inv (t1\<lparr>entries := (entries t1)[j := e], count := count t1 + 1\<rparr>)"
    for j e by (auto simp: table_inv_def)
  from assms(2) g have "table' = t1 \<or> (\<exists>j e. table' = t1\<lparr>entries := (entries t1)[j := e],
      count := count t1 + 1\<rparr>)"
    by (auto simp: table_create_entry_def bind_outcome_def Let_def
        split: option.splits sum.splits if_splits)
  with inv1 inv2 show ?thesis by auto
qed

lemma table_update_inv:
  assumes "table_inv table" "table_update table q v = Some (Inr (i, table', evs))"
  shows "table_inv table'"
proof -
  from assms(2) obtain t1 where c: "table_create_entry table q = Some (Inr (i, t1, evs))"
    and t': "table' = t1\<lparr>entries := (entries t1)[i := (entries t1 ! i)\<lparr>val := v\<rparr>]\<rparr>"
    by (auto simp: table_update_def bind_outcome_def split: option.splits sum.splits)
  from table_create_entry_inv[OF assms(1) c] t' show ?thesis
    by (simp add: table_inv_def)
qed

lemma table_remove_inv:
  assumes "table_inv table" "table_remove table q = Some (Inr (b, table'))"
  shows "table_inv table'"
proof -
  from assms(2) have "table' = table \<or> (0 < count table \<and> (\<exists>j e. table' =
      table\<lparr>entries := (entries table)[j := e], count := count table - 1\<rparr>))"
    by (auto simp: table_remove_def bind_outcome_def
        split: option.splits sum.splits if_splits)
  with assms(1) show ?thesis by (auto simp: table_inv_def)
qed

lemma table_clear_inv:
  assumes "table_inv table" "table_clear L table = Some (Inr table')"
  shows "table_inv table'"
  using assms by (auto simp: table_clear_def table_inv_def memset_zero_def split: if_splits)

lemma table_step_inv:
  assumes "table_inv table" "table_step L table c = Some (Inr table')"
  shows "table_inv table'"
proof (cases c)
  case (Op_Update q v)
  with assms(2) obtain i evs where "table_update table q v = Some (Inr (i, table', evs))"
    by (auto simp: bind_outcome_def split: option.splits sum.splits)
  from table_update_inv[OF assms(1) this] show ?thesis .
next
  case (Op_Remove q)
  with assms(2) obtain b where "table_remove table q = Some (Inr (b, table'))"
    by (auto simp: bind_outcome_def split: option.splits sum.splits)
  from table_remove_inv[OF assms(1) this] show ?thesis .
next
  case Op_Clear
  with assms table_clear_inv show ?thesis by auto
qed

lemma table_run_inv:
  "table_inv table \<Longrightarrow> table_run L table calls = Some (Inr table') \<Longrightarrow> table_inv table'"
proof (induction calls arbitrary: table)
  case Nil
  then show ?case by simp
next
  case (Cons c calls)
  from Cons.prems(2) obtain t1 where s: "table_step L table c = Some (Inr t1)"
    and r: "table_run L t1 calls = Some (Inr table')"
    by (auto simp: bind_outcome_def split: option.splits sum.splits)
  from Cons.IH[OF table_step_inv[OF Cons.prems(1) s] r] show ?case .
qed

lemma five_updates_run:
  "(case table_run int_int_layout (make_table table_auto_hash Mallocator) five_updates of
      Some (Inr table) \<Rightarrow> count table = 5 \<and> capacity table = 8
    | _ \<Rightarrow> False)"
  by code_simp

section \<open>Claims about the table\<close>

text \<open>
  C10: on a table fresh from \<^verbatim>\<open>make_table\<close>, \<^verbatim>\<open>table_find\<close> returns \<^verbatim>\<open>NULL\<close> for every key
  and \<^verbatim>\<open>table_remove\<close> returns \<^verbatim>\<open>false\<close> for every key. Both return a value and not a fault,
  so no entry of the null array is read; \<^verbatim>\<open>table_remove\<close> leaves every field of the table as it
  was, and neither function has a call of the allocator on any of its paths.
\<close>

theorem fresh_table_find_remove:
  "table_find (make_table hf a) k = Some (Inr None)
   \<and> table_remove (make_table hf a) k = Some (Inr (False, make_table hf a))"
  by (simp add: table_find_def table_remove_def make_table_def)

text \<open>
  C6 says that \<^verbatim>\<open>deinit(Table)\<close> releases the entry array through \<^verbatim>\<open>table.allocator\<close>. In the
  code it does not: for a table made with another allocator, the first \<^verbatim>\<open>table_update\<close> allocates
  the array through that allocator (and \<^verbatim>\<open>table_expand\<close> releases the old array through it),
  while \<^verbatim>\<open>deinit\<close> hands the array to the default allocator.
\<close>

theorem deinit_Table_default_allocator:
  "(case table_update linear_table 1 10 of
      Some (Inr (i, table, evs)) \<Rightarrow>
        allocator table = Allocator_Object 1
        \<and> evs = [Mem_Alloc (Allocator_Object 1) 8, Mem_Free (Allocator_Object 1) []]
        \<and> deinit_Table table = [Mem_Free Mallocator (entries table)]
    | _ \<Rightarrow> False)"
  by code_simp

text \<open>
  C3 says that \<^verbatim>\<open>table_clear\<close> sets every entry to the empty sentinel, so that \<^verbatim>\<open>table_find\<close>
  returns \<^verbatim>\<open>NULL\<close> for every key afterwards. In the code the \<^verbatim>\<open>memset\<close> covers \<open>capacity\<close>
  bytes, not \<open>capacity\<close> entries: in a \<^verbatim>\<open>Table<int, int>\<close> of capacity 8 it zeroes the key and the
  value of the first entry and no signature. After \<^verbatim>\<open>table_update(&t, 1, 10)\<close> and
  \<^verbatim>\<open>table_clear(&t)\<close> the count is 0, but slot 1 still holds the signature of key 1 and
  \<^verbatim>\<open>table_find(&t, 1)\<close> still returns the pointer to the value 10.
\<close>

theorem table_clear_keeps_entry:
  "(case table_run int_int_layout default_table [Op_Update 1 10, Op_Clear] of
      Some (Inr table) \<Rightarrow>
        count table = 0 \<and> capacity table = 8
        \<and> sign (entries table ! 1) = table_create_signature (table_auto_hash 1)
        \<and> table_find table 1 = Some (Inr (Some 1))
        \<and> val (entries table ! 1) = 10
    | _ \<Rightarrow> False)"
  by code_simp

text \<open>
  C5 says that \<^verbatim>\<open>table_find_entry\<close> returns \<^verbatim>\<open>NULL\<close> whenever no slot is empty and the key is
  not present. In the code the early return tests \<open>capacity = count\<close> only, and \<open>count\<close> does
  not count tombstones: after the calls of \<open>tombstone_calls\<close> every slot holds a tombstone,
  the key 2 is in no occupied slot, and \<^verbatim>\<open>table_find_entry(&t, 2)\<close> does not return.
\<close>

theorem table_find_entry_tombstones:
  "(case table_run int_int_layout default_table tombstone_calls of
      Some (Inr table) \<Rightarrow>
        list_all (\<lambda>e. sign e \<noteq> 0) (entries table)
        \<and> list_all (\<lambda>e. table_is_sentinel_entry e \<or> key e \<noteq> 2) (entries table)
        \<and> table_find_entry table 2 = None
    | _ \<Rightarrow> False)"
proof -
  obtain table where run: "table_run int_int_layout default_table tombstone_calls = Some (Inr table)"
    and t: "count table = 0" "capacity table = 8" "length (entries table) = 8"
      "list_all (\<lambda>e. sign e = - 1) (entries table)"
    using tombstone_table by (auto split: option.splits sum.splits)
  have "table_find_entry_loop (entries table) 8 2
          (table_create_signature (hash_func table 2))
          (unat ((table_create_signature (hash_func table 2) AND 0x3FFFFFFFFFFFFFFF) AND 7), 1) None = None"
  proof (rule table_find_entry_loop_diverges)
    have "(table_create_signature (hash_func table 2) AND 0x3FFFFFFFFFFFFFFF) AND 7 \<le> 7"
      by (rule word_and_le1)
    then show "fst (unat ((table_create_signature (hash_func table 2) AND 0x3FFFFFFFFFFFFFFF) AND 7), 1::nat) < 8"
      by (simp add: word_le_nat_alt)
    show "\<forall>e \<in> set (entries table). sign e \<noteq> 0 \<and>
        \<not> (sign e = table_create_signature (hash_func table 2) \<and> 2 = key e)"
      using t(4) table_create_signature_not_tombstone[of "hash_func table 2"]
      by (auto simp: list_all_iff)
  qed (simp_all add: t)
  then have "table_find_entry table 2 = None"
    using t by (auto simp: table_find_entry_def table_find_entry_sign_def Let_def)
  moreover have "list_all (\<lambda>e. sign e \<noteq> 0) (entries table)"
    "list_all (\<lambda>e. table_is_sentinel_entry e \<or> key e \<noteq> 2) (entries table)"
    using t(4) by (auto simp: list_all_iff table_is_sentinel_entry_def)
  ultimately show ?thesis by (simp add: run)
qed


text \<open>
  C1 says that after every sequence of \<^verbatim>\<open>table_update\<close> and \<^verbatim>\<open>table_remove\<close> calls
  \<^verbatim>\<open>table_find\<close> returns the latest value or \<^verbatim>\<open>NULL\<close>. After the sixteen calls of
  \<open>tombstone_calls\<close>, which all return, neither \<^verbatim>\<open>table_find(&t, 2)\<close> nor
  \<^verbatim>\<open>table_update(&t, 2, 7)\<close> returns: the growth check sees \<open>count = 0\<close> and does not rebuild
  the table, and the probe loop finds no empty slot.
\<close>

theorem table_find_after_tombstones:
  "(case table_run int_int_layout default_table tombstone_calls of
      Some (Inr table) \<Rightarrow>
        count table = 0 \<and> table_find table 2 = None \<and> table_update table 2 7 = None
    | _ \<Rightarrow> False)"
proof -
  obtain table where run: "table_run int_int_layout default_table tombstone_calls = Some (Inr table)"
    and t: "count table = 0" "capacity table = 8" "length (entries table) = 8"
      "list_all (\<lambda>e. sign e = - 1) (entries table)"
    using tombstone_table by (auto split: option.splits sum.splits)
  have loop: "table_find_entry_loop (entries table) 8 2
          (table_create_signature (hash_func table 2))
          (unat ((table_create_signature (hash_func table 2) AND 0x3FFFFFFFFFFFFFFF) AND 7), 1) None = None"
  proof (rule table_find_entry_loop_diverges)
    have "(table_create_signature (hash_func table 2) AND 0x3FFFFFFFFFFFFFFF) AND 7 \<le> 7"
      by (rule word_and_le1)
    then show "fst (unat ((table_create_signature (hash_func table 2) AND 0x3FFFFFFFFFFFFFFF) AND 7), 1::nat) < 8"
      by (simp add: word_le_nat_alt)
    show "\<forall>e \<in> set (entries table). sign e \<noteq> 0 \<and>
        \<not> (sign e = table_create_signature (hash_func table 2) \<and> 2 = key e)"
      using t(4) table_create_signature_not_tombstone[of "hash_func table 2"]
      by (auto simp: list_all_iff)
  qed (simp_all add: t)
  then have fe: "table_find_entry_sign table 2 (table_create_signature (hash_func table 2)) = None"
    using t by (auto simp: table_find_entry_sign_def Let_def)
  then have "table_find table 2 = None"
    using t by (simp add: table_find_def table_find_entry_def bind_outcome_def)
  moreover have "table_create_entry_grow table = Some (Inr (table, []))"
    using t by (simp add: table_create_entry_grow_def LOAD_FACTOR_def)
  then have "table_update table 2 7 = None"
    using fe by (simp add: table_update_def table_create_entry_def bind_outcome_def Let_def)
  ultimately show ?thesis by (simp add: run t)
qed

text \<open>
  C2: for a capacity \<open>2 ^ k\<close> and a start index below it, the slot probed at round \<open>n\<close> of
  the loop of \<^verbatim>\<open>table_find_entry\<close> (which adds the offsets 1, 2, 3, \<dots> and wraps around) is
  \<open>(start + n * (n + 1) div 2) mod 2 ^ k\<close>, and the first \<open>2 ^ k\<close> rounds probe every slot
  exactly once: the map from rounds to slots is a bijection on the indices below \<open>2 ^ k\<close>.
\<close>

theorem probe_sequence_bijection:
  assumes "start < 2 ^ k"
  shows "(\<forall>n. probe_sequence (2 ^ k) start n = Some ((start + n * (n + 1) div 2) mod 2 ^ k, n + 1))
    \<and> bij_betw (\<lambda>n. fst (the (probe_sequence (2 ^ k) start n))) {..<2 ^ k} {..<2 ^ k}"
proof -
  have seq: "probe_sequence (2 ^ k) start n = Some ((start + tri n) mod 2 ^ k, n + 1)" for n
    using assms by (intro probe_sequence_tri) simp_all
  have "(\<lambda>n. fst (the (probe_sequence (2 ^ k) start n))) = (\<lambda>n. (start + tri n) mod 2 ^ k)"
    by (simp add: seq)
  with probe_index_bij[of start k] seq show ?thesis by (simp add: tri_def)
qed

theorem probe_sequence_bijection_witness:
  "(5::nat) < 2 ^ 3
   \<and> (\<forall>n. probe_sequence (2 ^ 3) 5 n = Some ((5 + n * (n + 1) div 2) mod 2 ^ 3, n + 1))
   \<and> bij_betw (\<lambda>n. fst (the (probe_sequence (2 ^ 3) 5 n))) {..<2 ^ 3} {..<2 ^ 3}"
proof -
  have h: "(5::nat) < 2 ^ 3" by simp
  show ?thesis using h probe_sequence_bijection[OF h] by blast
qed

text \<open>
  C4: every table reached from \<^verbatim>\<open>make_table\<close> by calls of \<^verbatim>\<open>table_update\<close>,
  \<^verbatim>\<open>table_remove\<close> and \<^verbatim>\<open>table_clear\<close> that return has \<open>count < capacity\<close> unless its
  capacity is 0; and on such a table the growth check of \<^verbatim>\<open>table_create_entry\<close> returns, keeps
  \<open>count\<close>, doubles the capacity (8 the first time) exactly when
  \<open>(count + 1) * 100 \<ge> capacity * 70\<close>, and leaves \<open>(count + 1) * 100 < capacity * 70\<close> for
  the slot search that follows.
\<close>

theorem table_load_factor:
  assumes "table_run L (make_table hf a) calls = Some (Inr table)"
  shows "(capacity table = 0 \<or> count table < capacity table)
    \<and> (\<exists>table' evs. table_create_entry_grow table = Some (Inr (table', evs))
          \<and> count table' = count table
          \<and> capacity table' =
              (if (count table + 1) * 100 \<ge> capacity table * 70
               then (if capacity table \<ge> 8 then capacity table * 2 else 8)
               else capacity table)
          \<and> (count table' + 1) * 100 < capacity table' * 70)"
proof -
  have inv: "table_inv table"
    using table_run_inv[OF make_table_inv assms] .
  then have "capacity table = 0 \<or> count table < capacity table"
    by (auto simp: table_inv_def)
  with table_create_entry_grow_returns[OF inv] show ?thesis by blast
qed

theorem table_load_factor_witness:
  "\<exists>table table' evs.
     table_run int_int_layout (make_table table_auto_hash Mallocator) five_updates
       = Some (Inr table)
     \<and> count table = 5 \<and> capacity table = 8 \<and> count table < capacity table
     \<and> table_create_entry_grow table = Some (Inr (table', evs))
     \<and> count table' = 5 \<and> capacity table' = 16
     \<and> (count table' + 1) * 100 < capacity table' * 70"
proof -
  obtain table :: "(u32, u32) Table" where
    run: "table_run int_int_layout (make_table table_auto_hash Mallocator) five_updates
       = Some (Inr table)" and t: "count table = 5" "capacity table = 8"
    using five_updates_run by (auto split: option.splits sum.splits)
  from table_load_factor[OF run] t run show ?thesis by auto
qed

section \<open>The arena\<close>

lemma bit_usize_of_bytes:
  "bit (usize_of_bytes bs) n \<longleftrightarrow> n < 64 \<and> n div 8 < length bs \<and> bit (bs ! (n div 8)) (n mod 8)"
proof (induction bs arbitrary: n)
  case Nil
  show ?case by simp
next
  case (Cons b bs)
  show ?case
  proof (cases "n < 8")
    case True
    then show ?thesis by (simp add: bit_simps)
  next
    case False
    then obtain m where m: "n = m + 8" using le_Suc_ex[of 8 n] by (auto simp: add.commute)
    have "(m + 8) div 8 = Suc (m div 8)" "(m + 8) mod 8 = m mod 8" by simp_all
    with Cons[of m] show ?thesis
      unfolding m by (auto simp: bit_simps dest: bit_imp_le_length)
  qed
qed

lemma read_write_usize: "read_usize (write_usize m p v) p = v"
proof (rule bit_eqI)
  fix n
  assume "possible_bit TYPE(u64) n"
  then have n: "n < 64" by (simp add: possible_bit_def)
  then have d: "n div 8 < 8" by simp
  then have u: "unat (word_of_nat (n div 8) :: u64) = n div 8"
    by (simp add: unat_of_nat)
  have e: "8 * (n div 8) + n mod 8 = n" by simp
  have "bit (read_usize (write_usize m p v) p) n
      = bit (write_usize m p v (p + word_of_nat (n div 8))) (n mod 8)"
    using n d by (simp add: read_usize_def bit_usize_of_bytes)
  also have "\<dots> = bit (ucast (drop_bit (8 * (n div 8)) v) :: u8) (n mod 8)"
    using d u by (simp add: write_usize_def word_less_nat_alt)
  also have "\<dots> = bit v n"
    using e n by (simp add: bit_simps)
  finally show "bit (read_usize (write_usize m p v) p) n = bit v n" .
qed

lemma arena_block_ptr_eq:
  "arena_block_ptr arena align = data arena + allocated arena + 8 + arena_padding arena align"
  by (simp add: arena_block_ptr_def arena_padding_def alignptr_def Let_def)

lemma arena_alloc_unfold:
  "arena_alloc arena sz align =
     (if allocated arena + (8 + arena_padding arena align) + sz \<le> Arena.capacity arena then
        (arena_block_ptr arena align,
         arena\<lparr>memory := write_usize (memory arena) (arena_block_ptr arena align - 8) sz,
               allocated := allocated arena + (8 + arena_padding arena align) + sz\<rparr>)
      else (0, arena))"
proof -
  have "alignptr (data arena + allocated arena + 8) align - (data arena + allocated arena)
      = 8 + arena_padding arena align"
    using arena_block_ptr_eq[of arena align] by (simp add: arena_block_ptr_def)
  then show ?thesis
    by (simp add: arena_alloc_def Let_def arena_block_ptr_def)
qed

lemma unat_sum3:
  fixes a p s :: u64
  assumes "unat a + 8 + unat p + unat s < 2 ^ 64"
  shows "unat (a + (8 + p) + s) = unat a + 8 + unat p + unat s"
proof -
  have 1: "unat (8 + p) = 8 + unat p"
    using assms unat_add_lem[of 8 p] by simp
  have 2: "unat (a + (8 + p)) = unat a + (8 + unat p)"
    using assms unat_add_lem[of a "8 + p"] 1 by simp
  have "unat (a + (8 + p) + s) = unat (a + (8 + p)) + unat s"
    using assms unat_add_lem[of "a + (8 + p)" s] 2 by simp
  with 2 show ?thesis by simp
qed

lemma arena_alloc_fits:
  assumes "unat (allocated arena) + 8 + unat (arena_padding arena align) + unat sz < 2 ^ 64"
  shows "arena_block_ptr arena align
      = data arena + allocated arena + 8 + arena_padding arena align
    \<and> arena_alloc arena sz align =
       (if unat (Arena.capacity arena)
            < unat (allocated arena) + 8 + unat (arena_padding arena align) + unat sz
        then (0, arena)
        else (arena_block_ptr arena align,
              arena\<lparr>memory := write_usize (memory arena) (arena_block_ptr arena align - 8) sz,
                    allocated := allocated arena + (8 + arena_padding arena align) + sz\<rparr>))
    \<and> unat (allocated arena + (8 + arena_padding arena align) + sz)
      = unat (allocated arena) + 8 + unat (arena_padding arena align) + unat sz
    \<and> read_usize (write_usize (memory arena) (arena_block_ptr arena align - 8) sz)
        (arena_block_ptr arena align - 8) = sz"
proof -
  note s = unat_sum3[OF assms]
  have "allocated arena + (8 + arena_padding arena align) + sz \<le> Arena.capacity arena
    \<longleftrightarrow> \<not> unat (Arena.capacity arena)
            < unat (allocated arena) + 8 + unat (arena_padding arena align) + unat sz"
    by (simp add: word_le_nat_alt s not_less)
  then show ?thesis
    by (simp add: arena_alloc_unfold[of arena sz align] s read_write_usize arena_block_ptr_eq)
qed


lemma make_arena_test_arena: "make_arena 528 0x1000 (\<lambda>a. 0xFF) = Some test_arena"
  by (simp add: make_arena_def test_arena_def)

lemma test_arena_fields:
  "Arena.capacity test_arena = 512" "allocated test_arena = 0" "data test_arena = 0x1010"
  "arena_padding test_arena 16 = 8" "arena_block_ptr test_arena 16 = 0x1020"
  by (simp_all add: test_arena_def arena_padding_def arena_block_ptr_def alignptr_def)

lemma arena_alloc_wraps_result:
  "fst (arena_alloc test_arena (- 16) 16) = 0x1020
   \<and> memory test_arena 0x1018 = 0xFF
   \<and> memory (snd (arena_alloc test_arena (- 16) 16)) 0x1018 = 0xF0"
  by code_simp

lemma arena_alloc_frame:
  "Arena.capacity (snd (arena_alloc arena sz align)) = Arena.capacity arena
   \<and> data (snd (arena_alloc arena sz align)) = data arena"
  by (simp add: arena_alloc_def Let_def)

lemma arena_realloc_frame:
  assumes "arena_realloc arena block sz align = Inr (p, arena')"
  shows "Arena.capacity arena' = Arena.capacity arena \<and> data arena' = data arena"
proof (cases "block = 0")
  case True
  with assms have "arena' = snd (arena_alloc arena sz align)"
    by (simp add: arena_realloc_def)
  then show ?thesis by (simp add: arena_alloc_frame)
next
  case False
  obtain q a1 where a: "arena_alloc arena sz align = (q, a1)" by (cases "arena_alloc arena sz align")
  then have "Arena.capacity a1 = Arena.capacity arena \<and> data a1 = data arena"
    using arena_alloc_frame[of arena sz align] by simp
  with assms False a show ?thesis
    by (auto simp: arena_realloc_def Let_def split: if_splits)
qed

lemma linear_step_frame:
  assumes "linear_step la arena c = Inr arena'"
  shows "Arena.capacity arena' = Arena.capacity arena \<and> data arena' = data arena"
proof (cases c)
  case (Call_alloc sz align)
  with assms show ?thesis by (auto simp: linear_alloc_def arena_alloc_frame)
next
  case (Call_realloc block sz align)
  with assms obtain p where "arena_realloc arena block sz align = Inr (p, arena')"
    by (auto simp: linear_realloc_def split: sum.splits)
  then show ?thesis by (rule arena_realloc_frame)
next
  case (Call_free block)
  with assms show ?thesis by (simp add: linear_free_def)
qed

lemma linear_run_frame:
  "linear_run la arena calls = Inr arena' \<Longrightarrow>
   Arena.capacity arena' = Arena.capacity arena \<and> data arena' = data arena"
proof (induction calls arbitrary: arena)
  case Nil
  then show ?case by simp
next
  case (Cons c calls)
  from Cons.prems obtain a1 where s: "linear_step la arena c = Inr a1"
    and r: "linear_run la a1 calls = Inr arena'"
    by (auto split: sum.splits)
  from Cons.IH[OF r] linear_step_frame[OF s] show ?case by simp
qed

lemma scope_calls_run:
  "(case linear_run (make_linear_allocator test_arena) test_arena scope_calls of
      Inr a \<Rightarrow> allocated a = 44 | Inl e \<Rightarrow> False)"
  by code_simp

lemma unat_u64_less: "unat (w :: u64) < 2 ^ 64"
  using unsigned_less[of w] by simp

lemma arena_realloc_unfold:
  assumes "block \<noteq> 0" "align \<noteq> 0" "block mod align = 0"
  shows "arena_realloc arena block sz align =
     (if block + block_size arena block = data arena + allocated arena then
        (if allocated arena + (sz - block_size arena block) \<le> Arena.capacity arena then
           Inr (block, arena\<lparr>memory := write_usize (memory arena) (block - 8) sz,
                             allocated := allocated arena + (sz - block_size arena block)\<rparr>)
         else Inr (0, arena))
      else
        (case arena_alloc arena sz align of (new_block, arena') \<Rightarrow>
           if new_block \<noteq> 0 then
             Inr (new_block,
               arena'\<lparr>memory := memcpy (memory arena') new_block block
                                   (min (block_size arena block) sz)\<rparr>)
           else Inr (new_block, arena')))"
  unfolding block_size_def using assms by (simp add: arena_realloc_def Let_def)

lemma valid_block_nonzero: "valid_block arena block \<Longrightarrow> block \<noteq> 0"
  by (auto simp: valid_block_def)

lemma unat_tail_size:
  fixes a b s :: u64
  assumes "unat b \<le> unat a" "unat a - unat b + unat s < 2 ^ 64"
  shows "unat (a + (s - b)) = unat a - unat b + unat s"
proof -
  have "b \<le> a" using assms(1) by (simp add: word_le_nat_alt)
  then have 1: "unat (a - b) = unat a - unat b" by (rule unat_sub)
  have "unat (a + (s - b)) = unat ((a - b) + s)"
    by (rule arg_cong[where f = unat]) simp
  also have "\<dots> = unat (a - b) + unat s"
    using assms(2) unat_add_lem[of "a - b" s] 1 by simp
  finally show ?thesis using 1 by simp
qed

lemma arena_realloc_tail:
  assumes v: "valid_block arena block" and al: "align \<noteq> 0" "block mod align = 0"
    and tail: "block + block_size arena block = data arena + allocated arena"
    and nw: "unat (allocated arena) - unat (block_size arena block) + unat sz < 2 ^ 64"
  shows "arena_realloc arena block sz align =
      Inr (if unat (allocated arena) - unat (block_size arena block) + unat sz
              \<le> unat (Arena.capacity arena)
           then (block, arena\<lparr>memory := write_usize (memory arena) (block - 8) sz,
                              allocated := allocated arena + (sz - block_size arena block)\<rparr>)
           else (0, arena))
    \<and> unat (allocated arena + (sz - block_size arena block))
      = unat (allocated arena) - unat (block_size arena block) + unat sz"
proof -
  from v have "unat (block_size arena block) \<le> unat (allocated arena)"
    by (auto simp: valid_block_def)
  from unat_tail_size[OF this nw]
  have u: "unat (allocated arena + (sz - block_size arena block))
      = unat (allocated arena) - unat (block_size arena block) + unat sz" .
  then have "allocated arena + (sz - block_size arena block) \<le> Arena.capacity arena
    \<longleftrightarrow> unat (allocated arena) - unat (block_size arena block) + unat sz
            \<le> unat (Arena.capacity arena)"
    by (simp add: word_le_nat_alt)
  with u tail show ?thesis
    by (simp add: arena_realloc_unfold[OF valid_block_nonzero[OF v] al])
qed

lemma unat_block_ptr:
  assumes "unat (data arena) + unat (allocated arena) + 8 + unat (arena_padding arena align) < 2 ^ 64"
  shows "unat (arena_block_ptr arena align)
    = unat (data arena) + unat (allocated arena) + 8 + unat (arena_padding arena align)"
proof -
  have 1: "unat (data arena + allocated arena) = unat (data arena) + unat (allocated arena)"
    using assms unat_add_lem[of "data arena" "allocated arena"] by simp
  have 2: "unat (data arena + allocated arena + 8) = unat (data arena) + unat (allocated arena) + 8"
    using assms unat_add_lem[of "data arena + allocated arena" 8] 1 by simp
  have "unat (data arena + allocated arena + 8 + arena_padding arena align)
      = unat (data arena + allocated arena + 8) + unat (arena_padding arena align)"
    using assms unat_add_lem[of "data arena + allocated arena + 8" "arena_padding arena align"] 2
    by simp
  with 2 show ?thesis by (simp add: arena_block_ptr_eq)
qed

lemma arena_alloc_valid_block:
  assumes "unat (data arena) + unat (Arena.capacity arena) < 2 ^ 64"
    and "unat (allocated arena) + 8 + unat (arena_padding arena align) + unat sz
      \<le> unat (Arena.capacity arena)"
  shows "valid_block (snd (arena_alloc arena sz align)) (fst (arena_alloc arena sz align))"
proof -
  from assms have nw: "unat (allocated arena) + 8 + unat (arena_padding arena align) + unat sz
      < 2 ^ 64" by simp
  from assms have "unat (data arena) + unat (allocated arena) + 8
      + unat (arena_padding arena align) < 2 ^ 64" by simp
  from unat_block_ptr[OF this] have up: "unat (arena_block_ptr arena align)
      = unat (data arena) + unat (allocated arena) + 8 + unat (arena_padding arena align)" .
  from arena_alloc_fits[OF nw] assms(2)
  have alloc: "arena_alloc arena sz align = (arena_block_ptr arena align,
      arena\<lparr>memory := write_usize (memory arena) (arena_block_ptr arena align - 8) sz,
            allocated := allocated arena + (8 + arena_padding arena align) + sz\<rparr>)"
    and ua: "unat (allocated arena + (8 + arena_padding arena align) + sz)
      = unat (allocated arena) + 8 + unat (arena_padding arena align) + unat sz"
    by simp_all
  show ?thesis
    using assms up ua
    by (simp add: alloc valid_block_def block_size_def read_write_usize word_le_nat_alt)
qed

lemma write_usize_below:
  fixes p x :: u64
  assumes "8 \<le> unat p" "unat x < unat p - 8"
  shows "write_usize m (p - 8) v x = m x"
proof -
  have p8: "unat (p - 8) = unat p - 8"
    using assms(1) unat_sub[of 8 p] by (simp add: word_le_nat_alt)
  have "unat (x - (p - 8)) = unat x + 2 ^ 64 - unat (p - 8)"
    using assms(2) p8 by (simp add: unat_sub_if_size word_size)
  moreover have "unat (p - 8) < 2 ^ 64 - 8"
    using p8 unat_u64_less[of p] assms(1) by simp
  ultimately have "\<not> unat (x - (p - 8)) < 8" by simp
  then show ?thesis by (simp add: write_usize_def word_less_nat_alt)
qed

lemma memcpy_copied:
  assumes "j < unat n"
  shows "memcpy m dst src n (dst + word_of_nat j) = m (src + word_of_nat j)"
proof -
  have "j < 2 ^ 64" using assms unat_u64_less[of n] by simp
  then have "unat (word_of_nat j :: u64) = j" by (simp add: unat_of_nat)
  with assms show ?thesis by (simp add: memcpy_def word_less_nat_alt)
qed

lemma arena_realloc_moved:
  assumes v: "valid_block arena block" and al: "align \<noteq> 0" "block mod align = 0"
    and nt: "block + block_size arena block \<noteq> data arena + allocated arena"
    and nw: "unat (allocated arena) + 8 + unat (arena_padding arena align) + unat sz < 2 ^ 64"
  shows "\<exists>p arena'. arena_realloc arena block sz align = Inr (p, arena')
    \<and> (if unat (Arena.capacity arena)
            < unat (allocated arena) + 8 + unat (arena_padding arena align) + unat sz
        then p = 0 \<and> arena' = arena
        else p = arena_block_ptr arena align \<and> p \<noteq> 0 \<and> p \<noteq> block
          \<and> allocated arena' = allocated arena + (8 + arena_padding arena align) + sz
          \<and> Arena.capacity arena' = Arena.capacity arena \<and> data arena' = data arena
          \<and> (\<forall>j < unat (min (block_size arena block) sz).
                memory arena' (p + word_of_nat j) = memory arena (block + word_of_nat j)))"
proof (cases "unat (Arena.capacity arena)
            < unat (allocated arena) + 8 + unat (arena_padding arena align) + unat sz")
  case True
  with arena_alloc_fits[OF nw] have "arena_alloc arena sz align = (0, arena)" by simp
  with True nt show ?thesis
    by (simp add: arena_realloc_unfold[OF valid_block_nonzero[OF v] al])
next
  case False
  let ?p = "arena_block_ptr arena align"
  let ?m1 = "write_usize (memory arena) (?p - 8) sz"
  let ?n = "min (block_size arena block) sz"
  let ?a' = "arena\<lparr>memory := memcpy ?m1 ?p block ?n,
                     allocated := allocated arena + (8 + arena_padding arena align) + sz\<rparr>"
  from v have vb: "unat (data arena) + unat (Arena.capacity arena) < 2 ^ 64"
    "unat (data arena) + 8 \<le> unat block"
    "unat block + unat (block_size arena block) \<le> unat (data arena) + unat (allocated arena)"
    by (auto simp: valid_block_def)
  from False vb(1) have "unat (data arena) + unat (allocated arena) + 8
      + unat (arena_padding arena align) < 2 ^ 64" by simp
  from unat_block_ptr[OF this] have up: "unat ?p
      = unat (data arena) + unat (allocated arena) + 8 + unat (arena_padding arena align)" .
  with vb have gt: "unat block + unat (block_size arena block) \<le> unat ?p - 8" "8 \<le> unat ?p"
    "unat block < unat ?p" by simp_all
  then have ne: "?p \<noteq> 0" "?p \<noteq> block" by auto
  from arena_alloc_fits[OF nw] False
  have alloc: "arena_alloc arena sz align = (?p, arena\<lparr>memory := ?m1,
      allocated := allocated arena + (8 + arena_padding arena align) + sz\<rparr>)"
    by simp
  have res: "arena_realloc arena block sz align = Inr (?p, ?a')"
    using nt ne alloc by (simp add: arena_realloc_unfold[OF valid_block_nonzero[OF v] al])
  have bytes: "memory ?a' (?p + word_of_nat j) = memory arena (block + word_of_nat j)"
    if j: "j < unat ?n" for j
  proof -
    have jn: "j < unat (block_size arena block)"
      using j by (simp add: min_def word_le_nat_alt split: if_splits)
    have "j < 2 ^ 64" using jn unat_u64_less[of "block_size arena block"] by simp
    then have uj: "unat (word_of_nat j :: u64) = j" by (simp add: unat_of_nat)
    have "unat block + unat (word_of_nat j :: u64) < 2 ^ 64"
      using uj jn gt(1) unat_u64_less[of ?p] by linarith
    then have "unat (block + word_of_nat j) = unat block + unat (word_of_nat j :: u64)"
      using unat_add_lem[of block "word_of_nat j"] by simp
    then have "unat (block + word_of_nat j) = unat block + j"
      by (simp only: uj)
    with jn gt(1) have "unat (block + word_of_nat j) < unat ?p - 8" by simp
    from write_usize_below[OF gt(2) this]
    have "?m1 (block + word_of_nat j) = memory arena (block + word_of_nat j)" .
    with memcpy_copied[OF j, of ?m1 ?p block] show ?thesis by simp
  qed
  show ?thesis
    using res False ne bytes by (intro exI[of _ ?p] exI[of _ ?a']) simp
qed


lemma one_block_arena_eval:
  "Arena.capacity one_block_arena = 512 \<and> allocated one_block_arena = 24
   \<and> data one_block_arena = 0x1010 \<and> block_size one_block_arena 0x1020 = 8"
  by code_simp

lemma one_block_arena_fields:
  "Arena.capacity one_block_arena = 512" "allocated one_block_arena = 24"
  "data one_block_arena = 0x1010" "block_size one_block_arena 0x1020 = 8"
  using one_block_arena_eval by blast+

lemma two_block_arena_eval:
  "Arena.capacity two_block_arena = 512 \<and> allocated two_block_arena = 36
   \<and> data two_block_arena = 0x1010 \<and> block_size two_block_arena 0x1020 = 8
   \<and> block_size two_block_arena 0x1030 = 4 \<and> arena_padding two_block_arena 16 = 4
   \<and> arena_block_ptr two_block_arena 16 = 0x1040"
  by code_simp

lemma two_block_arena_fields:
  "Arena.capacity two_block_arena = 512" "allocated two_block_arena = 36"
  "data two_block_arena = 0x1010" "block_size two_block_arena 0x1020 = 8"
  "block_size two_block_arena 0x1030 = 4" "arena_padding two_block_arena 16 = 4"
  "arena_block_ptr two_block_arena 16 = 0x1040"
  using two_block_arena_eval by blast+

lemma arena_realloc_wraps_result:
  "(case arena_realloc one_block_arena 0x1020 (- 16) 16 of
      Inr (p, arena') \<Rightarrow> p = 0x1020 \<and> allocated arena' = 0
    | Inl e \<Rightarrow> False)"
  by code_simp

lemma two_block_arena_bytes:
  "memory two_block_arena 0x1020 = 0xFF"
  by code_simp

section \<open>Claims about the arena\<close>

text \<open>
  C7 says that \<^verbatim>\<open>arena_alloc\<close> returns null and leaves the arena unchanged whenever header,
  padding and size do not fit the capacity, as the function's comment does ("Returns null if the
  allocation failed") and as its test \<^verbatim>\<open>new_size <= arena->capacity\<close> sets out to do. The code
  misses a case: \<^verbatim>\<open>new_size\<close> is a \<^verbatim>\<open>usize\<close> sum and wraps around. In the arena
  \<open>test_arena\<close> of 512 bytes a request of \<open>2 ^ 64 - 16\<close> bytes at alignment 16 (header and
  padding 16 bytes) needs more than the capacity, yet the call returns the pointer \<open>0x1020\<close>,
  not null, and has written the header into the arena.
\<close>

theorem arena_alloc_wraps:
  "unat (Arena.capacity test_arena)
     < unat (allocated test_arena) + 8 + unat (arena_padding test_arena 16) + unat (- 16 :: u64)
   \<and> fst (arena_alloc test_arena (- 16) 16) = 0x1020
   \<and> memory test_arena 0x1018 = 0xFF
   \<and> memory (snd (arena_alloc test_arena (- 16) 16)) 0x1018 = 0xF0"
proof -
  have "unat (Arena.capacity test_arena)
     < unat (allocated test_arena) + 8 + unat (arena_padding test_arena 16) + unat (- 16 :: u64)"
    by (simp add: test_arena_fields)
  with arena_alloc_wraps_result show ?thesis by blast
qed

text \<open>
  Away from the wrap-around the test does its work. When \<open>allocated + 8 + padding + size\<close> stays
  below \<open>2 ^ 64\<close>, \<^verbatim>\<open>arena_alloc\<close> returns null and the arena as it was if that sum exceeds the
  capacity; otherwise it returns the aligned pointer (cursor address plus 8 plus padding), with
  the size stored in the 8 bytes before it (reading them back gives the size), \<open>allocated\<close>
  advanced by exactly \<open>8 + padding + size\<close> and nothing else changed.
\<close>

theorem arena_alloc_no_wrap:
  assumes "unat (allocated arena) + 8 + unat (arena_padding arena align) + unat sz < 2 ^ 64"
  shows "arena_block_ptr arena align
      = data arena + allocated arena + 8 + arena_padding arena align
    \<and> arena_alloc arena sz align =
       (if unat (Arena.capacity arena)
            < unat (allocated arena) + 8 + unat (arena_padding arena align) + unat sz
        then (0, arena)
        else (arena_block_ptr arena align,
              arena\<lparr>memory := write_usize (memory arena) (arena_block_ptr arena align - 8) sz,
                    allocated := allocated arena + (8 + arena_padding arena align) + sz\<rparr>))
    \<and> unat (allocated arena + (8 + arena_padding arena align) + sz)
      = unat (allocated arena) + 8 + unat (arena_padding arena align) + unat sz
    \<and> read_usize (write_usize (memory arena) (arena_block_ptr arena align - 8) sz)
        (arena_block_ptr arena align - 8) = sz"
  using arena_alloc_fits[OF assms] .

theorem arena_alloc_no_wrap_witness:
  "unat (allocated test_arena) + 8 + unat (arena_padding test_arena 16) + unat (400 :: u64) < 2 ^ 64
   \<and> arena_alloc test_arena 400 16
       = (0x1020, test_arena\<lparr>memory := write_usize (memory test_arena) 0x1018 400,
                              allocated := 416\<rparr>)
   \<and> unat (allocated test_arena) + 8 + unat (arena_padding test_arena 16) + unat (1000 :: u64) < 2 ^ 64
   \<and> arena_alloc test_arena 1000 16 = (0, test_arena)"
proof -
  have h1: "unat (allocated test_arena) + 8 + unat (arena_padding test_arena 16)
      + unat (400 :: u64) < 2 ^ 64"
    by (simp add: test_arena_fields)
  have h2: "unat (allocated test_arena) + 8 + unat (arena_padding test_arena 16)
      + unat (1000 :: u64) < 2 ^ 64"
    by (simp add: test_arena_fields)
  from arena_alloc_no_wrap[OF h1] have "arena_alloc test_arena 400 16
       = (0x1020, test_arena\<lparr>memory := write_usize (memory test_arena) 0x1018 400,
                              allocated := 416\<rparr>)"
    by (simp add: test_arena_fields)
  moreover from arena_alloc_no_wrap[OF h2] have "arena_alloc test_arena 1000 16 = (0, test_arena)"
    by (simp add: test_arena_fields)
  ultimately show ?thesis using h1 h2 by blast
qed

text \<open>
  C9: after any sequence of calls made through a \<^verbatim>\<open>Linear_Allocator\<close> created on an arena (when
  no assertion of \<^verbatim>\<open>arena_realloc\<close> has aborted the run), \<^verbatim>\<open>deinit\<close> of that allocator sets
  \<open>allocated\<close> back to the value it had when the allocator was made and changes no other field:
  the capacity and the data address are those of the arena at creation, the memory is as the
  calls left it.
\<close>

theorem deinit_Linear_Allocator_restores:
  assumes "linear_run (make_linear_allocator arena) arena calls = Inr arena'"
  shows "deinit_Linear_Allocator (make_linear_allocator arena) arena'
      = arena'\<lparr>allocated := allocated arena\<rparr>
    \<and> allocated (deinit_Linear_Allocator (make_linear_allocator arena) arena') = allocated arena
    \<and> Arena.capacity (deinit_Linear_Allocator (make_linear_allocator arena) arena')
      = Arena.capacity arena
    \<and> data (deinit_Linear_Allocator (make_linear_allocator arena) arena') = data arena
    \<and> memory (deinit_Linear_Allocator (make_linear_allocator arena) arena') = memory arena'"
  using linear_run_frame[OF assms]
  by (simp add: deinit_Linear_Allocator_def make_linear_allocator_def)

theorem deinit_Linear_Allocator_restores_witness:
  "\<exists>arena'. linear_run (make_linear_allocator test_arena) test_arena scope_calls = Inr arena'
     \<and> allocated arena' = 44
     \<and> allocated (deinit_Linear_Allocator (make_linear_allocator test_arena) arena') = 0
     \<and> Arena.capacity (deinit_Linear_Allocator (make_linear_allocator test_arena) arena') = 512"
proof -
  obtain arena' where run:
    "linear_run (make_linear_allocator test_arena) test_arena scope_calls = Inr arena'"
    and a: "allocated arena' = 44"
    using scope_calls_run by (auto split: sum.splits)
  note r = deinit_Linear_Allocator_restores[OF run]
  from r have "allocated (deinit_Linear_Allocator (make_linear_allocator test_arena) arena')
      = allocated test_arena"
    and "Arena.capacity (deinit_Linear_Allocator (make_linear_allocator test_arena) arena')
      = Arena.capacity test_arena"
    by blast+
  then have "allocated (deinit_Linear_Allocator (make_linear_allocator test_arena) arena') = 0"
    "Arena.capacity (deinit_Linear_Allocator (make_linear_allocator test_arena) arena') = 512"
    by (simp_all only: test_arena_fields)
  with run a show ?thesis by blast
qed

text \<open>
  C8 says that \<^verbatim>\<open>arena_realloc\<close> on the most recent block returns null, with no state change,
  whenever the adjusted cursor does not fit the capacity, as the function's comment does
  ("Returns null if the allocation failed") and as its test \<^verbatim>\<open>new_size <= arena->capacity\<close>
  sets out to do. The code misses a case: the adjusted cursor is computed in \<^verbatim>\<open>usize\<close> and
  wraps around. For the one block of \<open>one_block_arena\<close> (8 bytes at \<open>0x1020\<close>, cursor 24,
  capacity 512), a valid block at the tail, a new size of \<open>2 ^ 64 - 16\<close> gives the cursor
  \<open>24 - 8 + 2 ^ 64 - 16\<close>, far above the capacity, and the call returns the block's pointer and
  sets \<open>allocated\<close> to 0.
\<close>

theorem arena_realloc_wraps:
  "valid_block one_block_arena 0x1020
   \<and> 0x1020 + block_size one_block_arena 0x1020 = data one_block_arena + allocated one_block_arena
   \<and> unat (Arena.capacity one_block_arena)
       < unat (allocated one_block_arena) - unat (block_size one_block_arena 0x1020)
         + unat (- 16 :: u64)
   \<and> (case arena_realloc one_block_arena 0x1020 (- 16) 16 of
        Inr (p, arena') \<Rightarrow> p = 0x1020 \<and> allocated arena' = 0
      | Inl e \<Rightarrow> False)"
proof -
  have "valid_block one_block_arena 0x1020"
    by (simp add: valid_block_def one_block_arena_fields)
  moreover have "0x1020 + block_size one_block_arena 0x1020
      = data one_block_arena + allocated one_block_arena"
    by (simp add: one_block_arena_fields)
  moreover have "unat (Arena.capacity one_block_arena)
       < unat (allocated one_block_arena) - unat (block_size one_block_arena 0x1020)
         + unat (- 16 :: u64)"
    by (simp add: one_block_arena_fields)
  ultimately show ?thesis using arena_realloc_wraps_result by blast
qed


text \<open>
  Away from the wrap-around, for a valid non-null block that passes the alignment assertion. If
  the block is the most recent one (block + stored size = data + allocated) and
  \<open>allocated - old + new\<close> is below \<open>2 ^ 64\<close>: when that adjusted cursor fits the capacity the
  input pointer is returned, the header is rewritten with the new size and the cursor moved by
  the delta; otherwise null is returned and the arena is unchanged. If the block is not at the
  tail and \<open>allocated + 8 + padding + new\<close> is below \<open>2 ^ 64\<close>: when that does not fit the
  capacity null is returned and the arena is unchanged; otherwise the pointer returned is the
  fresh block's, different from the input and from null, and the first \<open>min old new\<close> bytes at
  it are the bytes the old block had.
\<close>

theorem arena_realloc_no_wrap:
  assumes "valid_block arena block" "align \<noteq> 0" "block mod align = 0"
  shows "(block + block_size arena block = data arena + allocated arena
       \<and> unat (allocated arena) - unat (block_size arena block) + unat sz < 2 ^ 64 \<longrightarrow>
       arena_realloc arena block sz align =
         Inr (if unat (allocated arena) - unat (block_size arena block) + unat sz
                 \<le> unat (Arena.capacity arena)
              then (block, arena\<lparr>memory := write_usize (memory arena) (block - 8) sz,
                                 allocated := allocated arena + (sz - block_size arena block)\<rparr>)
              else (0, arena))
       \<and> unat (allocated arena + (sz - block_size arena block))
         = unat (allocated arena) - unat (block_size arena block) + unat sz)
    \<and> (block + block_size arena block \<noteq> data arena + allocated arena
       \<and> unat (allocated arena) + 8 + unat (arena_padding arena align) + unat sz < 2 ^ 64 \<longrightarrow>
       (\<exists>p arena'. arena_realloc arena block sz align = Inr (p, arena')
         \<and> (if unat (Arena.capacity arena)
                 < unat (allocated arena) + 8 + unat (arena_padding arena align) + unat sz
             then p = 0 \<and> arena' = arena
             else p = arena_block_ptr arena align \<and> p \<noteq> 0 \<and> p \<noteq> block
               \<and> allocated arena' = allocated arena + (8 + arena_padding arena align) + sz
               \<and> Arena.capacity arena' = Arena.capacity arena \<and> data arena' = data arena
               \<and> (\<forall>j < unat (min (block_size arena block) sz).
                     memory arena' (p + word_of_nat j) = memory arena (block + word_of_nat j)))))"
proof (rule conjI; rule impI)
  assume "block + block_size arena block = data arena + allocated arena
       \<and> unat (allocated arena) - unat (block_size arena block) + unat sz < 2 ^ 64"
  then show "arena_realloc arena block sz align =
         Inr (if unat (allocated arena) - unat (block_size arena block) + unat sz
                 \<le> unat (Arena.capacity arena)
              then (block, arena\<lparr>memory := write_usize (memory arena) (block - 8) sz,
                                 allocated := allocated arena + (sz - block_size arena block)\<rparr>)
              else (0, arena))
       \<and> unat (allocated arena + (sz - block_size arena block))
         = unat (allocated arena) - unat (block_size arena block) + unat sz"
    using arena_realloc_tail[OF assms] by blast
next
  assume "block + block_size arena block \<noteq> data arena + allocated arena
       \<and> unat (allocated arena) + 8 + unat (arena_padding arena align) + unat sz < 2 ^ 64"
  then show "\<exists>p arena'. arena_realloc arena block sz align = Inr (p, arena')
         \<and> (if unat (Arena.capacity arena)
                 < unat (allocated arena) + 8 + unat (arena_padding arena align) + unat sz
             then p = 0 \<and> arena' = arena
             else p = arena_block_ptr arena align \<and> p \<noteq> 0 \<and> p \<noteq> block
               \<and> allocated arena' = allocated arena + (8 + arena_padding arena align) + sz
               \<and> Arena.capacity arena' = Arena.capacity arena \<and> data arena' = data arena
               \<and> (\<forall>j < unat (min (block_size arena block) sz).
                     memory arena' (p + word_of_nat j) = memory arena (block + word_of_nat j)))"
    using arena_realloc_moved[OF assms] by blast
qed

theorem arena_realloc_no_wrap_witness:
  "valid_block two_block_arena 0x1030 \<and> valid_block two_block_arena 0x1020
   \<and> (16 :: u64) \<noteq> 0 \<and> (0x1030 :: u64) mod 16 = 0 \<and> (0x1020 :: u64) mod 16 = 0
   \<and> 0x1030 + block_size two_block_arena 0x1030 = data two_block_arena + allocated two_block_arena
   \<and> unat (allocated two_block_arena) - unat (block_size two_block_arena 0x1030)
       + unat (12 :: u64) < 2 ^ 64
   \<and> arena_realloc two_block_arena 0x1030 12 16 =
       Inr (0x1030, two_block_arena\<lparr>memory := write_usize (memory two_block_arena) 0x1028 12,
                                     allocated := 44\<rparr>)
   \<and> 0x1020 + block_size two_block_arena 0x1020 \<noteq> data two_block_arena + allocated two_block_arena
   \<and> unat (allocated two_block_arena) + 8 + unat (arena_padding two_block_arena 16)
       + unat (4 :: u64) < 2 ^ 64
   \<and> (\<exists>arena'. arena_realloc two_block_arena 0x1020 4 16 = Inr (0x1040, arena')
         \<and> allocated arena' = 52 \<and> memory arena' 0x1040 = 0xFF \<and> memory arena' 0x1043 = 0xFF)"
proof -
  have v1: "valid_block two_block_arena 0x1030" and v2: "valid_block two_block_arena 0x1020"
    by (simp_all add: valid_block_def two_block_arena_fields)
  have al: "(16 :: u64) \<noteq> 0" "(0x1030 :: u64) mod 16 = 0" "(0x1020 :: u64) mod 16 = 0"
    by simp_all
  have tail: "0x1030 + block_size two_block_arena 0x1030
      = data two_block_arena + allocated two_block_arena"
    and nw1: "unat (allocated two_block_arena) - unat (block_size two_block_arena 0x1030)
       + unat (12 :: u64) < 2 ^ 64"
    and nt: "0x1020 + block_size two_block_arena 0x1020
      \<noteq> data two_block_arena + allocated two_block_arena"
    and nw2: "unat (allocated two_block_arena) + 8 + unat (arena_padding two_block_arena 16)
       + unat (4 :: u64) < 2 ^ 64"
    by (simp_all add: two_block_arena_fields)
  from arena_realloc_no_wrap[OF v1 al(1) al(2), of 12] tail nw1
  have "arena_realloc two_block_arena 0x1030 12 16 =
         Inr (if unat (allocated two_block_arena) - unat (block_size two_block_arena 0x1030)
                 + unat (12 :: u64) \<le> unat (Arena.capacity two_block_arena)
              then (0x1030, two_block_arena\<lparr>memory :=
                       write_usize (memory two_block_arena) (0x1030 - 8) 12,
                     allocated := allocated two_block_arena
                       + (12 - block_size two_block_arena 0x1030)\<rparr>)
              else (0, two_block_arena))"
    by blast
  then have r1: "arena_realloc two_block_arena 0x1030 12 16 =
       Inr (0x1030, two_block_arena\<lparr>memory := write_usize (memory two_block_arena) 0x1028 12,
                                     allocated := 44\<rparr>)"
    by (simp add: two_block_arena_fields)
  from arena_realloc_no_wrap[OF v2 al(1) al(3), of 4] nt nw2
  obtain p arena' where r2: "arena_realloc two_block_arena 0x1020 4 16 = Inr (p, arena')"
    and c: "if unat (Arena.capacity two_block_arena)
                 < unat (allocated two_block_arena) + 8 + unat (arena_padding two_block_arena 16)
                   + unat (4 :: u64)
             then p = 0 \<and> arena' = two_block_arena
             else p = arena_block_ptr two_block_arena 16 \<and> p \<noteq> 0 \<and> p \<noteq> 0x1020
               \<and> allocated arena' = allocated two_block_arena
                   + (8 + arena_padding two_block_arena 16) + 4
               \<and> Arena.capacity arena' = Arena.capacity two_block_arena
               \<and> data arena' = data two_block_arena
               \<and> (\<forall>j < unat (min (block_size two_block_arena 0x1020) 4).
                     memory arena' (p + word_of_nat j)
                       = memory two_block_arena (0x1020 + word_of_nat j))"
    by blast
  from c have p: "p = 0x1040" and a: "allocated arena' = 52"
    and b: "\<forall>j < 4. memory arena' (0x1040 + word_of_nat j)
        = memory two_block_arena (0x1020 + word_of_nat j)"
    by (auto simp: two_block_arena_fields)
  from spec[OF b, of 0]
  have "memory arena' (0x1040 + word_of_nat 0) = memory two_block_arena (0x1020 + word_of_nat 0)"
    by simp
  then have b0: "memory arena' 0x1040 = 0xFF" by (simp add: two_block_arena_bytes)
  from spec[OF b, of 3]
  have "memory arena' (0x1040 + word_of_nat 3) = memory two_block_arena (0x1020 + word_of_nat 3)"
    by simp
  moreover have "memory two_block_arena 0x1023 = 0xFF" by code_simp
  ultimately have b3: "memory arena' 0x1043 = 0xFF" by simp
  from r2 p a b0 b3 have "\<exists>arena'. arena_realloc two_block_arena 0x1020 4 16 = Inr (0x1040, arena')
         \<and> allocated arena' = 52 \<and> memory arena' 0x1040 = 0xFF \<and> memory arena' 0x1043 = 0xFF"
    by blast
  with v1 v2 al tail nw1 r1 nt nw2 show ?thesis by blast
qed

end
